theory Spec2Isabelle
  imports Complex_Main
begin

section \<open>Strings of the runtime\<close>

text \<open>
  A JavaScript string is a sequence of UTF-16 code units. The development covers texts
  whose code units are below 256: a \<^typ>\<open>char\<close> stands for the code unit of the same
  number, and a string is a \<^typ>\<open>string\<close>. The white space of \<^verbatim>\<open>String.prototype.trim\<close>
  and of the regular-expression class \<^verbatim>\<open>\s\<close> in that range is TAB, LF, VT, FF, CR, SPACE
  and NBSP; the line terminators are LF and CR.
\<close>

definition is_space :: "char \<Rightarrow> bool" where
  "is_space c = (c = CHR 0x09 \<or> c = CHR 0x0A \<or> c = CHR 0x0B \<or> c = CHR 0x0C \<or>
                 c = CHR 0x0D \<or> c = CHR 0x20 \<or> c = CHR 0xA0)"

definition is_line_terminator :: "char \<Rightarrow> bool" where
  "is_line_terminator c = (c = CHR 0x0A \<or> c = CHR 0x0D)"

text \<open>
  The classes \<^verbatim>\<open>[0-9]\<close> and \<^verbatim>\<open>[a-zA-Z]\<close>, by the numbers of the code units
  (\<^verbatim>\<open>0\<close> is 48, \<^verbatim>\<open>9\<close> is 57, \<^verbatim>\<open>A\<close> is 65, \<^verbatim>\<open>Z\<close> is 90, \<^verbatim>\<open>a\<close> is 97, \<^verbatim>\<open>z\<close> is 122).
\<close>

definition is_digit :: "char \<Rightarrow> bool" where
  "is_digit c = (48 \<le> (of_char c :: nat) \<and> (of_char c :: nat) \<le> 57)"

definition is_alpha :: "char \<Rightarrow> bool" where
  "is_alpha c = ((97 \<le> (of_char c :: nat) \<and> (of_char c :: nat) \<le> 122) \<or>
                 (65 \<le> (of_char c :: nat) \<and> (of_char c :: nat) \<le> 90))"

text \<open>The class \<^verbatim>\<open>\w\<close>, that is \<^verbatim>\<open>[A-Za-z0-9_]\<close>.\<close>

definition is_word :: "char \<Rightarrow> bool" where
  "is_word c = (is_alpha c \<or> is_digit c \<or> c = CHR ''_'')"

text \<open>\<^verbatim>\<open>s.trim()\<close>: the white space at both ends is removed.\<close>

definition trim :: "string \<Rightarrow> string" where
  "trim s = rev (dropWhile is_space (rev (dropWhile is_space s)))"

text \<open>
  \<^verbatim>\<open>s.split(sep)\<close> for a separator of one character: the pieces between the occurrences
  of the separator, in order. The result is never empty (the empty string gives one
  empty piece).
\<close>

fun split_on :: "char \<Rightarrow> string \<Rightarrow> string list" where
  "split_on sep [] = [[]]"
| "split_on sep (c # cs) =
     (if c = sep then [] # split_on sep cs
      else (case split_on sep cs of
              [] \<Rightarrow> [[c]]
            | p # ps \<Rightarrow> (c # p) # ps))"

text \<open>\<^verbatim>\<open>pieces.join(sep)\<close> for a separator of one character.\<close>

fun join_with :: "char \<Rightarrow> string list \<Rightarrow> string" where
  "join_with sep [] = []"
| "join_with sep [p] = p"
| "join_with sep (p # q # ps) = p @ sep # join_with sep (q # ps)"

text \<open>\<^verbatim>\<open>xs[i]\<close> on an array: \<^verbatim>\<open>undefined\<close> out of range.\<close>

definition nth_opt :: "'a list \<Rightarrow> nat \<Rightarrow> 'a option" where
  "nth_opt xs i = (if i < length xs then Some (xs ! i) else None)"


section \<open>The declaration splitter: \<^verbatim>\<open>lexer\<close> of lexer.ts\<close>

text \<open>
  The local variables of \<^verbatim>\<open>lexer\<close>. \<open>stringChar\<close> is the empty string or the quote
  that opened the string being scanned. The depths are JavaScript numbers that only
  ever move by one: integers, which can go below zero. The counters \<^verbatim>\<open>line\<close> and
  \<^verbatim>\<open>column\<close> are \<open>lexer_line\<close> and \<open>lexer_column\<close>.
\<close>

record lexer_state =
  lexer_line :: nat
  lexer_column :: nat
  position :: nat
  declarations :: "string list"
  buffer :: string
  inString :: bool
  stringChar :: string
  braceDepth :: int
  bracketDepth :: int

definition lexer_init :: lexer_state where
  "lexer_init = \<lparr> lexer_line = 1, lexer_column = 0, position = 0, declarations = [], buffer = [],
                   inString = False, stringChar = [], braceDepth = 0, bracketDepth = 0 \<rparr>"

text \<open>\<^verbatim>\<open>next()\<close>, for the character \<open>ch\<close> at the current position.\<close>

definition next_char :: "char \<Rightarrow> lexer_state \<Rightarrow> lexer_state" where
  "next_char ch s =
     (if ch = CHR 0x0A
      then s\<lparr> position := position s + 1, lexer_line := lexer_line s + 1, lexer_column := 0 \<rparr>
      else s\<lparr> position := position s + 1, lexer_column := lexer_column s + 1 \<rparr>)"

text \<open>The four \<^verbatim>\<open>if\<close> statements that track the nesting.\<close>

definition track_nesting :: "char \<Rightarrow> lexer_state \<Rightarrow> lexer_state" where
  "track_nesting ch s =
     (let s1 = (if ch = CHR ''{'' then s\<lparr> braceDepth := braceDepth s + 1 \<rparr> else s);
          s2 = (if ch = CHR ''}'' then s1\<lparr> braceDepth := braceDepth s1 - 1 \<rparr> else s1);
          s3 = (if ch = CHR ''['' then s2\<lparr> bracketDepth := bracketDepth s2 + 1 \<rparr> else s2);
          s4 = (if ch = CHR '']'' then s3\<lparr> bracketDepth := bracketDepth s3 - 1 \<rparr> else s3)
      in s4)"

text \<open>One turn of the \<^verbatim>\<open>while\<close> loop, \<open>ch\<close> being \<^verbatim>\<open>peek()\<close>.\<close>

definition lexer_iter :: "char \<Rightarrow> lexer_state \<Rightarrow> lexer_state" where
  "lexer_iter ch s =
     (if (ch = CHR 0x22 \<or> ch = CHR 0x27) \<and> \<not> inString s then
        (next_char ch s)\<lparr> inString := True, stringChar := [ch], buffer := buffer s @ [ch] \<rparr>
      else if [ch] = stringChar s \<and> inString s then
        (next_char ch s)\<lparr> inString := False, stringChar := [], buffer := buffer s @ [ch] \<rparr>
      else if inString s then
        (next_char ch s)\<lparr> buffer := buffer s @ [ch] \<rparr>
      else
        (let t = track_nesting ch s in
         if ch = CHR '';'' \<and> braceDepth t = 0 \<and> bracketDepth t = 0 then
           (next_char ch t)\<lparr> declarations := declarations t @ [trim (buffer t @ [ch])],
                               buffer := [] \<rparr>
         else
           (next_char ch t)\<lparr> buffer := buffer t @ [ch] \<rparr>))"

lemma position_lexer_iter: "position (lexer_iter ch s) = Suc (position s)"
  by (simp add: lexer_iter_def next_char_def track_nesting_def Let_def)

text \<open>The \<^verbatim>\<open>while (!isEOF())\<close> loop.\<close>

function lexer_loop :: "string \<Rightarrow> lexer_state \<Rightarrow> lexer_state" where
  "lexer_loop input s =
     (if position s \<ge> length input then s
      else lexer_loop input (lexer_iter (input ! position s) s))"
  by pat_completeness auto
termination
  by (relation "measure (\<lambda>(input, s). length input - position s)")
     (auto simp: position_lexer_iter)

declare lexer_loop.simps [simp del]

definition lexer :: "string \<Rightarrow> string list" where
  "lexer input =
     (let s = lexer_loop input lexer_init in
      if trim (buffer s) \<noteq> [] then declarations s @ [trim (buffer s)]
      else declarations s)"


subsection \<open>The scan, character by character\<close>

text \<open>The loop visits every character once, in order: it is a left fold of \<open>lexer_iter\<close>.\<close>

lemma lexer_loop_foldl:
  "position s \<le> length input \<Longrightarrow>
   lexer_loop input s = foldl (\<lambda>s ch. lexer_iter ch s) s (drop (position s) input)"
proof (induction input s rule: lexer_loop.induct)
  case (1 input s)
  show ?case
  proof (cases "position s \<ge> length input")
    case True
    then show ?thesis by (simp add: lexer_loop.simps)
  next
    case False
    then have lt: "position s < length input" by simp
    have d: "drop (position s) input = input ! position s # drop (Suc (position s)) input"
      using lt by (simp add: Cons_nth_drop_Suc)
    have "lexer_loop input s = lexer_loop input (lexer_iter (input ! position s) s)"
      using False by (subst lexer_loop.simps) simp
    also have "\<dots> = foldl (\<lambda>s ch. lexer_iter ch s) (lexer_iter (input ! position s) s)
                       (drop (Suc (position s)) input)"
      using "1.IH" [OF False] lt by (simp add: position_lexer_iter)
    finally show ?thesis by (simp add: d)
  qed
qed

lemma lexer_loop_init:
  "lexer_loop input lexer_init = foldl (\<lambda>s ch. lexer_iter ch s) lexer_init input"
  using lexer_loop_foldl [of lexer_init input] by (simp add: lexer_init_def)

lemma lexer_iter_boundary:
  "(declarations (lexer_iter ch s) \<noteq> declarations s) =
   (ch = CHR '';'' \<and> \<not> inString s \<and> braceDepth s = 0 \<and> bracketDepth s = 0)"
  by (auto simp: lexer_iter_def next_char_def track_nesting_def Let_def)

lemma lexer_iter_emits:
  "ch = CHR '';'' \<and> \<not> inString s \<and> braceDepth s = 0 \<and> bracketDepth s = 0 \<Longrightarrow>
   declarations (lexer_iter ch s) = declarations s @ [trim (buffer s @ '';'')] \<and>
   buffer (lexer_iter ch s) = []"
  by (auto simp: lexer_iter_def next_char_def track_nesting_def Let_def)

lemma lexer_iter_collects:
  "\<not> (ch = CHR '';'' \<and> \<not> inString s \<and> braceDepth s = 0 \<and> bracketDepth s = 0) \<Longrightarrow>
   declarations (lexer_iter ch s) = declarations s \<and>
   buffer (lexer_iter ch s) = buffer s @ [ch]"
  by (auto simp: lexer_iter_def next_char_def track_nesting_def Let_def)

lemma foldl_lexer_iter_no_semicolon:
  "CHR '';'' \<notin> set xs \<Longrightarrow>
   declarations (foldl (\<lambda>s ch. lexer_iter ch s) s xs) = declarations s \<and>
   buffer (foldl (\<lambda>s ch. lexer_iter ch s) s xs) = buffer s @ xs"
proof (induction xs arbitrary: s)
  case Nil
  show ?case by simp
next
  case (Cons x xs)
  from Cons.prems have "x \<noteq> CHR '';''" and rest: "CHR '';'' \<notin> set xs" by auto
  then have step: "declarations (lexer_iter x s) = declarations s \<and>
                   buffer (lexer_iter x s) = buffer s @ [x]"
    by (intro lexer_iter_collects) simp
  show ?case using Cons.IH [OF rest, of "lexer_iter x s"] step by simp
qed

lemma lexer_no_semicolon:
  assumes "CHR '';'' \<notin> set input"
  shows "lexer input = (if trim input = [] then [] else [trim input])"
  using foldl_lexer_iter_no_semicolon [OF assms, of lexer_init]
  by (simp add: lexer_def lexer_loop_init Let_def) (simp add: lexer_init_def)

lemma lexer_nested_example:
  "lexer ''ARRAY ITEMS=[{\"a\": \";\", \"b\": [1,2]}, {\"a\": \"x\"}]'' =
   [''ARRAY ITEMS=[{\"a\": \";\", \"b\": [1,2]}, {\"a\": \"x\"}]'']"
  by code_simp


subsection \<open>The boundaries of the statements, read off the text\<close>

text \<open>
  What the claim says of a text, without the scanner. \<open>open_quote xs\<close> is the quote
  of the string that is open at the end of \<open>xs\<close>, if one is: a quote opens a string
  outside a string, and the same quote closes it. \<open>unquoted q xs\<close> are the characters of
  \<open>xs\<close> outside the strings and their quotes, \<open>q\<close> being the quote open at the start.
  \<open>nesting a b xs\<close> is the number of \<open>a\<close> minus the number of \<open>b\<close> among them, and
  the end of \<open>xs\<close> is at the top level when no string is open there and the nesting of
  braces and of brackets is zero.
\<close>

definition quote_step :: "char option \<Rightarrow> char \<Rightarrow> char option" where
  "quote_step q ch =
     (case q of
        None \<Rightarrow> if ch = CHR 0x22 \<or> ch = CHR 0x27 then Some ch else None
      | Some d \<Rightarrow> if ch = d then None else Some d)"

definition open_quote :: "string \<Rightarrow> char option" where
  "open_quote xs = foldl quote_step None xs"

fun unquoted :: "char option \<Rightarrow> string \<Rightarrow> string" where
  "unquoted q [] = []"
| "unquoted q (ch # cs) =
     (if q = None \<and> quote_step q ch = None then ch # unquoted None cs
      else unquoted (quote_step q ch) cs)"

definition nesting :: "char \<Rightarrow> char \<Rightarrow> string \<Rightarrow> int" where
  "nesting opening closing xs =
     int (count_list (unquoted None xs) opening) - int (count_list (unquoted None xs) closing)"

definition top_level :: "string \<Rightarrow> bool" where
  "top_level xs =
     (open_quote xs = None \<and> nesting (CHR ''{'') (CHR ''}'') xs = 0 \<and>
      nesting (CHR ''['') (CHR '']'') xs = 0)"

text \<open>
  The positions of the \<^verbatim>\<open>;\<close> that stand at the top level, in increasing order; the
  pieces of the text that end at these positions, each from the end of the one before;
  and the position after the last of them.
\<close>

definition statement_ends :: "string \<Rightarrow> nat list" where
  "statement_ends input =
     filter (\<lambda>i. input ! i = CHR '';'' \<and> top_level (take i input)) [0..<length input]"

fun slices :: "string \<Rightarrow> nat \<Rightarrow> nat list \<Rightarrow> string list" where
  "slices input a [] = []"
| "slices input a (b # bs) = take (Suc b - a) (drop a input) # slices input (Suc b) bs"

definition after_last :: "nat \<Rightarrow> nat list \<Rightarrow> nat" where
  "after_last a bs = (if bs = [] then a else Suc (last bs))"

text \<open>The state of the scanner after a text is what the text says.\<close>

lemma unquoted_append:
  "unquoted q (xs @ ys) = unquoted q xs @ unquoted (foldl quote_step q xs) ys"
  by (induction xs arbitrary: q) (auto simp: quote_step_def split: option.splits)

lemma open_quote_snoc: "open_quote (xs @ [ch]) = quote_step (open_quote xs) ch"
  by (simp add: open_quote_def)

lemma unquoted_snoc:
  "unquoted None (xs @ [ch]) =
     unquoted None xs @ (if open_quote xs = None \<and> ch \<noteq> CHR 0x22 \<and> ch \<noteq> CHR 0x27 then [ch] else [])"
  by (simp add: unquoted_append open_quote_def quote_step_def split: option.splits)

lemma nesting_snoc:
  "nesting a b (xs @ [ch]) =
     nesting a b xs +
     (if open_quote xs = None \<and> ch \<noteq> CHR 0x22 \<and> ch \<noteq> CHR 0x27
      then (if ch = a then 1 else 0) - (if ch = b then 1 else 0) else 0)"
  by (simp add: nesting_def unquoted_snoc)

definition scan :: "string \<Rightarrow> lexer_state" where
  "scan xs = foldl (\<lambda>s ch. lexer_iter ch s) lexer_init xs"

lemma scan_snoc: "scan (xs @ [ch]) = lexer_iter ch (scan xs)"
  by (simp add: scan_def)

lemma scan_state:
  "inString (scan xs) = (open_quote xs \<noteq> None) \<and>
   stringChar (scan xs) = (case open_quote xs of None \<Rightarrow> [] | Some q \<Rightarrow> [q]) \<and>
   braceDepth (scan xs) = nesting (CHR ''{'') (CHR ''}'') xs \<and>
   bracketDepth (scan xs) = nesting (CHR ''['') (CHR '']'') xs"
proof (induction xs rule: rev_induct)
  case Nil
  show ?case by (simp add: scan_def lexer_init_def open_quote_def nesting_def)
next
  case (snoc ch xs)
  then show ?case
    by (cases "open_quote xs")
       (auto simp: scan_snoc open_quote_snoc nesting_snoc quote_step_def lexer_iter_def
                   next_char_def track_nesting_def Let_def)
qed


text \<open>The statements emitted after a text, and the buffer, are what the text says.\<close>

lemma top_level_scan:
  "top_level xs = (\<not> inString (scan xs) \<and> braceDepth (scan xs) = 0 \<and> bracketDepth (scan xs) = 0)"
  by (simp add: scan_state top_level_def)

lemma statement_ends_snoc:
  "statement_ends (xs @ [ch]) =
     statement_ends xs @ (if ch = CHR '';'' \<and> top_level xs then [length xs] else [])"
proof -
  have "filter (\<lambda>i. (xs @ [ch]) ! i = CHR '';'' \<and> top_level (take i (xs @ [ch]))) [0..<length xs] =
        filter (\<lambda>i. xs ! i = CHR '';'' \<and> top_level (take i xs)) [0..<length xs]"
    by (rule filter_cong) (auto simp: nth_append)
  then show ?thesis by (simp add: statement_ends_def)
qed

lemma statement_ends_bound: "b \<in> set (statement_ends xs) \<Longrightarrow> b < length xs"
  by (simp add: statement_ends_def)

lemma after_last_bound: "after_last 0 (statement_ends xs) \<le> length xs"
proof (cases "statement_ends xs = []")
  case True
  then show ?thesis by (simp add: after_last_def)
next
  case False
  then have "last (statement_ends xs) \<in> set (statement_ends xs)" by simp
  from statement_ends_bound [OF this] False show ?thesis by (simp add: after_last_def)
qed

lemma after_last_Cons: "after_last a (b # bs) = after_last (Suc b) bs"
  by (simp add: after_last_def)

lemma slices_snoc:
  "slices xs a (bs @ [n]) =
     slices xs a bs @ [take (Suc n - after_last a bs) (drop (after_last a bs) xs)]"
proof (induction bs arbitrary: a)
  case Nil
  show ?case by (simp add: after_last_def)
next
  case (Cons b bs)
  show ?case using Cons.IH [of "Suc b"] by (simp add: after_last_Cons)
qed

lemma slices_append_text:
  "\<forall>b\<in>set bs. b < length xs \<Longrightarrow> slices (xs @ ys) a bs = slices xs a bs"
  by (induction bs arbitrary: a) auto

lemma scan_output:
  "declarations (scan xs) = map trim (slices xs 0 (statement_ends xs)) \<and>
   buffer (scan xs) = drop (after_last 0 (statement_ends xs)) xs"
proof (induction xs rule: rev_induct)
  case Nil
  show ?case by (simp add: scan_def lexer_init_def statement_ends_def)
next
  case (snoc ch xs)
  let ?bs = "statement_ends xs"
  have same: "slices (xs @ [ch]) 0 ?bs = slices xs 0 ?bs"
    by (rule slices_append_text) (simp add: statement_ends_bound)
  show ?case
  proof (cases "ch = CHR '';'' \<and> top_level xs")
    case True
    then have b: "ch = CHR '';'' \<and> \<not> inString (scan xs) \<and> braceDepth (scan xs) = 0 \<and>
                  bracketDepth (scan xs) = 0"
      by (simp add: top_level_scan)
    have ends: "statement_ends (xs @ [ch]) = ?bs @ [length xs]"
      using True by (simp add: statement_ends_snoc)
    define a where "a = after_last 0 ?bs"
    have le: "a \<le> length xs" unfolding a_def by (rule after_last_bound)
    have piece: "take (Suc (length xs) - a) (drop a (xs @ [ch])) = drop a xs @ [ch]"
      using le by simp
    have sl: "slices (xs @ [ch]) 0 (?bs @ [length xs]) = slices xs 0 ?bs @ [drop a xs @ [ch]]"
      unfolding slices_snoc same a_def [symmetric] piece ..
    have al: "after_last 0 (?bs @ [length xs]) = Suc (length xs)"
      by (simp add: after_last_def)
    from lexer_iter_emits [OF b] snoc.IH True show ?thesis
      unfolding scan_snoc ends sl al a_def [symmetric] by simp
  next
    case False
    then have nb: "\<not> (ch = CHR '';'' \<and> \<not> inString (scan xs) \<and> braceDepth (scan xs) = 0 \<and>
                  bracketDepth (scan xs) = 0)"
      by (simp add: top_level_scan)
    have ends: "statement_ends (xs @ [ch]) = ?bs"
      using False by (simp add: statement_ends_snoc)
    from lexer_iter_collects [OF nb] snoc.IH same after_last_bound [of xs] show ?thesis
      by (simp add: scan_snoc ends)
  qed
qed

lemma lexer_loop_scan: "lexer_loop input lexer_init = scan input"
  by (simp add: lexer_loop_init scan_def)

lemma lexer_statements:
  "lexer input =
     map trim (slices input 0 (statement_ends input)) @
     (if trim (drop (after_last 0 (statement_ends input)) input) = [] then []
      else [trim (drop (after_last 0 (statement_ends input)) input)])"
  by (simp add: lexer_def lexer_loop_scan scan_output Let_def)

lemma statement_ends_Nil:
  "(statement_ends input = []) =
     (\<forall>i<length input. input ! i = CHR '';'' \<longrightarrow> \<not> top_level (take i input))"
  by (auto simp: statement_ends_def filter_empty_conv)

lemma lexer_single_statement:
  assumes "\<forall>i<length input. input ! i = CHR '';'' \<longrightarrow> \<not> top_level (take i input)"
  shows "lexer input = (if trim input = [] then [] else [trim input])"
proof -
  from assms have "statement_ends input = []" by (simp add: statement_ends_Nil)
  then show ?thesis by (simp add: lexer_statements after_last_def)
qed

lemma lexer_emits_at:
  assumes "i < length input"
  shows "(declarations (lexer_loop (take (Suc i) input) lexer_init) \<noteq>
          declarations (lexer_loop (take i input) lexer_init)) =
         (input ! i = CHR '';'' \<and> top_level (take i input))"
proof -
  have t: "take (Suc i) input = take i input @ [input ! i]"
    using assms by (simp add: take_Suc_conv_app_nth)
  show ?thesis
    unfolding lexer_loop_scan t scan_snoc
    by (simp add: lexer_iter_boundary top_level_scan)
qed


text \<open>
  Inside a string, and inside a nested literal. A text with double quotes only leaves
  a string open exactly when their number is odd. After a quote, a text without that
  quote is inside the string; after an opening bracket or brace at the top level, a text
  that closes no more of them than it opens is inside the literal; and a \<^verbatim>\<open>;\<close> read
  there ends no statement.
\<close>

lemma open_quote_double:
  "CHR 0x27 \<notin> set xs \<Longrightarrow> (open_quote xs \<noteq> None) = odd (count_list xs (CHR 0x22))"
proof (induction xs rule: rev_induct)
  case Nil
  show ?case by (simp add: open_quote_def)
next
  case (snoc ch xs)
  then have q: "open_quote xs = None \<or> open_quote xs = Some (CHR 0x22)"
    and ih: "(open_quote xs \<noteq> None) = odd (count_list xs (CHR 0x22))" and ch: "ch \<noteq> CHR 0x27"
  proof -
    from snoc.prems have n: "CHR 0x27 \<notin> set xs" and c: "ch \<noteq> CHR 0x27" by auto
    have "open_quote ys = None \<or> open_quote ys = Some (CHR 0x22)" if "CHR 0x27 \<notin> set ys" for ys
      using that
      by (induction ys rule: rev_induct) (auto simp: open_quote_def quote_step_def)
    from this [OF n] show "open_quote xs = None \<or> open_quote xs = Some (CHR 0x22)" .
    from snoc.IH [OF n] show "(open_quote xs \<noteq> None) = odd (count_list xs (CHR 0x22))" .
    from c show "ch \<noteq> CHR 0x27" .
  qed
  from q ih ch show ?case
    by (auto simp: open_quote_snoc quote_step_def)
qed

lemma open_quote_append: "open_quote (xs @ ys) = foldl quote_step (open_quote xs) ys"
  by (simp add: open_quote_def)

lemma quote_stays_open: "q \<notin> set p \<Longrightarrow> foldl quote_step (Some q) p = Some q"
  by (induction p) (auto simp: quote_step_def)

lemma inside_string:
  assumes "open_quote a = None" "q = CHR 0x22 \<or> q = CHR 0x27" "q \<notin> set p"
  shows "open_quote (a @ q # p) = Some q"
  using assms by (auto simp: open_quote_append quote_step_def quote_stays_open)

lemma nesting_inside:
  assumes "open_quote a = None" "opening \<noteq> CHR 0x22" "opening \<noteq> CHR 0x27" "opening \<noteq> closing"
  shows "nesting opening closing (a @ opening # p) =
         nesting opening closing a + 1 + nesting opening closing p"
proof -
  have "unquoted None (a @ opening # p) = unquoted None a @ opening # unquoted None p"
    using assms by (simp add: unquoted_append open_quote_def [symmetric] quote_step_def)
  then show ?thesis using assms by (simp add: nesting_def)
qed

lemma no_statement_inside:
  assumes "\<not> top_level xs"
  shows "declarations (lexer_loop (xs @ '';'') lexer_init) = declarations (lexer_loop xs lexer_init)"
proof -
  from assms have "\<not> (CHR '';'' = CHR '';'' \<and> \<not> inString (scan xs) \<and> braceDepth (scan xs) = 0 \<and>
                     bracketDepth (scan xs) = 0)"
    by (simp add: top_level_scan)
  from lexer_iter_collects [OF this] show ?thesis
    by (simp add: lexer_loop_scan scan_snoc)
qed

lemma no_statement_inside_string:
  assumes "open_quote a = None" "q = CHR 0x22 \<or> q = CHR 0x27" "q \<notin> set p"
  shows "declarations (lexer_loop ((a @ q # p) @ '';'') lexer_init) =
         declarations (lexer_loop (a @ q # p) lexer_init)"
  using inside_string [OF assms] by (intro no_statement_inside) (simp add: top_level_def)

lemma no_statement_inside_brackets:
  assumes "open_quote a = None" "nesting (CHR ''['') (CHR '']'') a = 0"
    "0 \<le> nesting (CHR ''['') (CHR '']'') p"
  shows "declarations (lexer_loop ((a @ CHR ''['' # p) @ '';'') lexer_init) =
         declarations (lexer_loop (a @ CHR ''['' # p) lexer_init)"
  using assms nesting_inside [of a "CHR ''[''" "CHR '']''" p]
  by (intro no_statement_inside) (simp add: top_level_def)

lemma no_statement_inside_braces:
  assumes "open_quote a = None" "nesting (CHR ''{'') (CHR ''}'') a = 0"
    "0 \<le> nesting (CHR ''{'') (CHR ''}'') p"
  shows "declarations (lexer_loop ((a @ CHR ''{'' # p) @ '';'') lexer_init) =
         declarations (lexer_loop (a @ CHR ''{'' # p) lexer_init)"
  using assms nesting_inside [of a "CHR ''{''" "CHR ''}''" p]
  by (intro no_statement_inside) (simp add: top_level_def)


lemma lexer_examples:
  "lexer ''ARRAY A=[1;2];'' = [''ARRAY A=[1;2];'']"
  "lexer ''STRING A=\"x;y\";'' = [''STRING A=\"x;y\";'']"
  "lexer ''OBJ A={\"k\": \"}\", \"l\": [\"]\"]}; NUMBER B=1;  BOOL C=true '' =
     [''OBJ A={\"k\": \"}\", \"l\": [\"]\"]};'', ''NUMBER B=1;'', ''BOOL C=true'']"
  "lexer ''NUMBER A=1]; NUMBER B=2;'' = [''NUMBER A=1]; NUMBER B=2;'']"
  by code_simp+

text \<open>
  Claim C4. After any text, the scanner is inside a string exactly when the text
  leaves a quote open (for a text with double quotes only: when their number is odd),
  and its two depths are the nesting of the braces and of the brackets that the text has
  outside its strings. So the character at a position of the input ends a statement
  exactly when it is a \<^verbatim>\<open>;\<close> and the text before it ends at the top level: outside
  every string, with both nestings zero. A \<^verbatim>\<open>;\<close> after an opening quote that no quote
  of the same kind has followed, or after an opening bracket or brace that has not been
  closed, ends no statement. The result of \<open>lexer\<close> is the input cut after each \<^verbatim>\<open>;\<close>
  at the top level, each piece trimmed, followed by what remains of the input after the
  last of them, trimmed, when that is not empty. An input whose every \<^verbatim>\<open>;\<close> is inside
  a string or a nested literal is one statement, as is
  \<^verbatim>\<open>ARRAY ITEMS=[{"a": ";", "b": [1,2]}, {"a": "x"}]\<close>; so is an input with no \<^verbatim>\<open>;\<close>
  at all that is not blank. The nesting is a difference, which a closing bracket with
  no opening one makes negative: no \<^verbatim>\<open>;\<close> after it is then at the top level.
\<close>

theorem lexer_statement_boundaries:
  "(inString (lexer_loop xs lexer_init) = (open_quote xs \<noteq> None) \<and>
    stringChar (lexer_loop xs lexer_init) = (case open_quote xs of None \<Rightarrow> [] | Some q \<Rightarrow> [q]) \<and>
    braceDepth (lexer_loop xs lexer_init) = nesting (CHR ''{'') (CHR ''}'') xs \<and>
    bracketDepth (lexer_loop xs lexer_init) = nesting (CHR ''['') (CHR '']'') xs) \<and>
   (CHR 0x27 \<notin> set xs \<longrightarrow>
      inString (lexer_loop xs lexer_init) = odd (count_list xs (CHR 0x22))) \<and>
   ((declarations (lexer_iter ch s) \<noteq> declarations s) =
      (ch = CHR '';'' \<and> \<not> inString s \<and> braceDepth s = 0 \<and> bracketDepth s = 0)) \<and>
   (declarations (lexer_iter ch s) =
      (if ch = CHR '';'' \<and> \<not> inString s \<and> braceDepth s = 0 \<and> bracketDepth s = 0
       then declarations s @ [trim (buffer s @ '';'')] else declarations s)) \<and>
   (buffer (lexer_iter ch s) =
      (if ch = CHR '';'' \<and> \<not> inString s \<and> braceDepth s = 0 \<and> bracketDepth s = 0
       then [] else buffer s @ [ch])) \<and>
   (i < length input \<longrightarrow>
      (declarations (lexer_loop (take (Suc i) input) lexer_init) \<noteq>
       declarations (lexer_loop (take i input) lexer_init)) =
      (input ! i = CHR '';'' \<and> top_level (take i input))) \<and>
   (open_quote a = None \<and> (q = CHR 0x22 \<or> q = CHR 0x27) \<and> q \<notin> set p \<longrightarrow>
      declarations (lexer_loop ((a @ q # p) @ '';'') lexer_init) =
      declarations (lexer_loop (a @ q # p) lexer_init)) \<and>
   (open_quote a = None \<and> nesting (CHR ''['') (CHR '']'') a = 0 \<and>
    0 \<le> nesting (CHR ''['') (CHR '']'') p \<longrightarrow>
      declarations (lexer_loop ((a @ CHR ''['' # p) @ '';'') lexer_init) =
      declarations (lexer_loop (a @ CHR ''['' # p) lexer_init)) \<and>
   (open_quote a = None \<and> nesting (CHR ''{'') (CHR ''}'') a = 0 \<and>
    0 \<le> nesting (CHR ''{'') (CHR ''}'') p \<longrightarrow>
      declarations (lexer_loop ((a @ CHR ''{'' # p) @ '';'') lexer_init) =
      declarations (lexer_loop (a @ CHR ''{'' # p) lexer_init)) \<and>
   lexer input =
     map trim (slices input 0 (statement_ends input)) @
     (if trim (drop (after_last 0 (statement_ends input)) input) = [] then []
      else [trim (drop (after_last 0 (statement_ends input)) input)]) \<and>
   ((\<forall>i<length input. input ! i = CHR '';'' \<longrightarrow> \<not> top_level (take i input)) \<and>
    trim input \<noteq> [] \<longrightarrow> lexer input = [trim input]) \<and>
   lexer ''ARRAY ITEMS=[{\"a\": \";\", \"b\": [1,2]}, {\"a\": \"x\"}]'' =
     [''ARRAY ITEMS=[{\"a\": \";\", \"b\": [1,2]}, {\"a\": \"x\"}]''] \<and>
   lexer ''ARRAY A=[1;2];'' = [''ARRAY A=[1;2];''] \<and>
   lexer ''STRING A=\"x;y\";'' = [''STRING A=\"x;y\";''] \<and>
   lexer ''OBJ A={\"k\": \"}\", \"l\": [\"]\"]}; NUMBER B=1;  BOOL C=true '' =
     [''OBJ A={\"k\": \"}\", \"l\": [\"]\"]};'', ''NUMBER B=1;'', ''BOOL C=true''] \<and>
   lexer ''NUMBER A=1]; NUMBER B=2;'' = [''NUMBER A=1]; NUMBER B=2;''] \<and>
   lexer input =
     declarations (foldl (\<lambda>s ch. lexer_iter ch s) lexer_init input) @
     (if trim (buffer (foldl (\<lambda>s ch. lexer_iter ch s) lexer_init input)) = [] then []
      else [trim (buffer (foldl (\<lambda>s ch. lexer_iter ch s) lexer_init input))]) \<and>
   (CHR '';'' \<notin> set input \<and> trim input \<noteq> [] \<longrightarrow> lexer input = [trim input])"
proof -
  let ?b = "ch = CHR '';'' \<and> \<not> inString s \<and> braceDepth s = 0 \<and> bracketDepth s = 0"
  have st: "inString (lexer_loop xs lexer_init) = (open_quote xs \<noteq> None) \<and>
    stringChar (lexer_loop xs lexer_init) = (case open_quote xs of None \<Rightarrow> [] | Some q \<Rightarrow> [q]) \<and>
    braceDepth (lexer_loop xs lexer_init) = nesting (CHR ''{'') (CHR ''}'') xs \<and>
    bracketDepth (lexer_loop xs lexer_init) = nesting (CHR ''['') (CHR '']'') xs"
    unfolding lexer_loop_scan by (rule scan_state)
  have dq: "CHR 0x27 \<notin> set xs \<longrightarrow>
      inString (lexer_loop xs lexer_init) = odd (count_list xs (CHR 0x22))"
    using st open_quote_double [of xs] by simp
  have d: "declarations (lexer_iter ch s) =
             (if ?b then declarations s @ [trim (buffer s @ '';'')] else declarations s)"
    using lexer_iter_emits [of ch s] lexer_iter_collects [of ch s] by (cases ?b) simp_all
  have b: "buffer (lexer_iter ch s) = (if ?b then [] else buffer s @ [ch])"
    using lexer_iter_emits [of ch s] lexer_iter_collects [of ch s] by (cases ?b) simp_all
  have at: "i < length input \<longrightarrow>
      (declarations (lexer_loop (take (Suc i) input) lexer_init) \<noteq>
       declarations (lexer_loop (take i input) lexer_init)) =
      (input ! i = CHR '';'' \<and> top_level (take i input))"
    using lexer_emits_at [of i input] by blast
  have ins: "open_quote a = None \<and> (q = CHR 0x22 \<or> q = CHR 0x27) \<and> q \<notin> set p \<longrightarrow>
      declarations (lexer_loop ((a @ q # p) @ '';'') lexer_init) =
      declarations (lexer_loop (a @ q # p) lexer_init)"
    using no_statement_inside_string [of a q p] by blast
  have inb: "open_quote a = None \<and> nesting (CHR ''['') (CHR '']'') a = 0 \<and>
    0 \<le> nesting (CHR ''['') (CHR '']'') p \<longrightarrow>
      declarations (lexer_loop ((a @ CHR ''['' # p) @ '';'') lexer_init) =
      declarations (lexer_loop (a @ CHR ''['' # p) lexer_init)"
    using no_statement_inside_brackets [of a p] by blast
  have inc: "open_quote a = None \<and> nesting (CHR ''{'') (CHR ''}'') a = 0 \<and>
    0 \<le> nesting (CHR ''{'') (CHR ''}'') p \<longrightarrow>
      declarations (lexer_loop ((a @ CHR ''{'' # p) @ '';'') lexer_init) =
      declarations (lexer_loop (a @ CHR ''{'' # p) lexer_init)"
    using no_statement_inside_braces [of a p] by blast
  have one: "(\<forall>i<length input. input ! i = CHR '';'' \<longrightarrow> \<not> top_level (take i input)) \<and>
    trim input \<noteq> [] \<longrightarrow> lexer input = [trim input]"
    using lexer_single_statement [of input] by simp
  have e: "lexer input =
     declarations (foldl (\<lambda>s ch. lexer_iter ch s) lexer_init input) @
     (if trim (buffer (foldl (\<lambda>s ch. lexer_iter ch s) lexer_init input)) = [] then []
      else [trim (buffer (foldl (\<lambda>s ch. lexer_iter ch s) lexer_init input))])"
    by (simp add: lexer_def lexer_loop_init Let_def)
  have n: "CHR '';'' \<notin> set input \<and> trim input \<noteq> [] \<longrightarrow> lexer input = [trim input]"
    using lexer_no_semicolon [of input] by simp
  show ?thesis
    by (intro conjI st [THEN conjunct1] st [THEN conjunct2, THEN conjunct1]
          st [THEN conjunct2, THEN conjunct2, THEN conjunct1]
          st [THEN conjunct2, THEN conjunct2, THEN conjunct2]
          dq lexer_iter_boundary d b at ins inb inc lexer_statements one lexer_nested_example
          lexer_examples e n)
qed

theorem lexer_statement_boundaries_witness:
  "(10::nat) < length ''ARRAY A=[1;2]'' \<and> ''ARRAY A=[1;2]'' ! 10 = CHR '';'' \<and>
   \<not> top_level (take 10 ''ARRAY A=[1;2]'') \<and>
   declarations (lexer_loop (take (Suc 10) ''ARRAY A=[1;2]'') lexer_init) =
   declarations (lexer_loop (take 10 ''ARRAY A=[1;2]'') lexer_init) \<and>
   statement_ends ''ARRAY A=[1;2]'' = [] \<and> trim ''ARRAY A=[1;2]'' \<noteq> [] \<and>
   lexer ''ARRAY A=[1;2]'' = [''ARRAY A=[1;2]''] \<and>
   (3::nat) < length ''A=1;B'' \<and> ''A=1;B'' ! 3 = CHR '';'' \<and> top_level (take 3 ''A=1;B'') \<and>
   declarations (lexer_loop (take (Suc 3) ''A=1;B'') lexer_init) \<noteq>
   declarations (lexer_loop (take 3 ''A=1;B'') lexer_init) \<and>
   CHR 0x27 \<notin> set ''STRING A=\"x'' \<and> odd (count_list ''STRING A=\"x'' (CHR 0x22)) \<and>
   inString (lexer_loop ''STRING A=\"x'' lexer_init) \<and>
   open_quote ''STRING A='' = None \<and> CHR 0x22 \<notin> set ''x'' \<and>
   declarations (lexer_loop ''STRING A=\"x;'' lexer_init) =
   declarations (lexer_loop ''STRING A=\"x'' lexer_init) \<and>
   open_quote ''ARRAY A='' = None \<and> nesting (CHR ''['') (CHR '']'') ''ARRAY A='' = 0 \<and>
   0 \<le> nesting (CHR ''['') (CHR '']'') ''[1],'' \<and>
   declarations (lexer_loop ''ARRAY A=[[1],;'' lexer_init) =
   declarations (lexer_loop ''ARRAY A=[[1],'' lexer_init) \<and>
   open_quote ''OBJ A='' = None \<and> nesting (CHR ''{'') (CHR ''}'') ''OBJ A='' = 0 \<and>
   0 \<le> nesting (CHR ''{'') (CHR ''}'') ''\"k\":1'' \<and>
   declarations (lexer_loop ''OBJ A={\"k\":1;'' lexer_init) =
   declarations (lexer_loop ''OBJ A={\"k\":1'' lexer_init) \<and>
   CHR '';'' \<notin> set ''NUMBER PORT=3000'' \<and> trim ''NUMBER PORT=3000'' \<noteq> [] \<and>
   lexer ''NUMBER PORT=3000'' = [''NUMBER PORT=3000'']"
proof -
  have l: "(10::nat) < length ''ARRAY A=[1;2]''" by simp
  have c: "''ARRAY A=[1;2]'' ! 10 = CHR '';''" by code_simp
  have n: "\<not> top_level (take 10 ''ARRAY A=[1;2]'')" by code_simp
  have e: "statement_ends ''ARRAY A=[1;2]'' = []" by code_simp
  have t: "trim ''ARRAY A=[1;2]'' \<noteq> []" by code_simp
  have t': "trim ''ARRAY A=[1;2]'' = ''ARRAY A=[1;2]''" by code_simp
  have a: "\<forall>i<length ''ARRAY A=[1;2]''.
             ''ARRAY A=[1;2]'' ! i = CHR '';'' \<longrightarrow> \<not> top_level (take i ''ARRAY A=[1;2]'')"
    using e unfolding statement_ends_Nil .
  note T = lexer_statement_boundaries [where input = "''ARRAY A=[1;2]''" and i = 10]
  note at = T [THEN conjunct2, THEN conjunct2, THEN conjunct2, THEN conjunct2, THEN conjunct2, THEN conjunct1]
  note one = T [THEN conjunct2, THEN conjunct2, THEN conjunct2, THEN conjunct2, THEN conjunct2, THEN conjunct2, THEN conjunct2, THEN conjunct2, THEN conjunct2, THEN conjunct2, THEN conjunct1]
  have d: "declarations (lexer_loop (take (Suc 10) ''ARRAY A=[1;2]'') lexer_init) =
           declarations (lexer_loop (take 10 ''ARRAY A=[1;2]'') lexer_init)"
    using at l n by blast
  have o: "lexer ''ARRAY A=[1;2]'' = [trim ''ARRAY A=[1;2]'']"
    using one a t by blast
  have l2: "(3::nat) < length ''A=1;B''" by simp
  have c2: "''A=1;B'' ! 3 = CHR '';''" by code_simp
  have n2: "top_level (take 3 ''A=1;B'')" by code_simp
  have d2: "declarations (lexer_loop (take (Suc 3) ''A=1;B'') lexer_init) \<noteq>
            declarations (lexer_loop (take 3 ''A=1;B'') lexer_init)"
    using lexer_statement_boundaries [where input = "''A=1;B''" and i = 3, THEN conjunct2, THEN conjunct2, THEN conjunct2, THEN conjunct2, THEN conjunct2, THEN conjunct1]
      l2 c2 n2 by blast
  have q1: "CHR 0x27 \<notin> set ''STRING A=\"x''" by simp
  have q2: "odd (count_list ''STRING A=\"x'' (CHR 0x22))" by simp
  have q3: "inString (lexer_loop ''STRING A=\"x'' lexer_init)"
    using lexer_statement_boundaries [where xs = "''STRING A=\"x''", THEN conjunct2, THEN conjunct1] q1 q2
    by blast
  have s1: "open_quote ''STRING A='' = None" by code_simp
  have s2: "CHR 0x22 \<notin> set ''x''" by simp
  have "declarations (lexer_loop ((''STRING A='' @ CHR 0x22 # ''x'') @ '';'') lexer_init) =
        declarations (lexer_loop (''STRING A='' @ CHR 0x22 # ''x'') lexer_init)"
    using lexer_statement_boundaries [where a = "''STRING A=''" and q = "CHR 0x22" and p = "''x''",
        THEN conjunct2, THEN conjunct2, THEN conjunct2, THEN conjunct2, THEN conjunct2, THEN conjunct2, THEN conjunct1]
      s1 s2 by blast
  then have s3: "declarations (lexer_loop ''STRING A=\"x;'' lexer_init) =
                 declarations (lexer_loop ''STRING A=\"x'' lexer_init)"
    by simp
  have b1: "open_quote ''ARRAY A='' = None" by code_simp
  have b2: "nesting (CHR ''['') (CHR '']'') ''ARRAY A='' = 0" by code_simp
  have b3: "0 \<le> nesting (CHR ''['') (CHR '']'') ''[1],''" by code_simp
  have "declarations (lexer_loop ((''ARRAY A='' @ CHR ''['' # ''[1],'') @ '';'') lexer_init) =
        declarations (lexer_loop (''ARRAY A='' @ CHR ''['' # ''[1],'') lexer_init)"
    using lexer_statement_boundaries [where a = "''ARRAY A=''" and p = "''[1],''",
        THEN conjunct2, THEN conjunct2, THEN conjunct2, THEN conjunct2, THEN conjunct2, THEN conjunct2, THEN conjunct2, THEN conjunct1]
      b1 b2 b3
    by blast
  then have b4: "declarations (lexer_loop ''ARRAY A=[[1],;'' lexer_init) =
                 declarations (lexer_loop ''ARRAY A=[[1],'' lexer_init)"
    by simp
  have r1: "open_quote ''OBJ A='' = None" by code_simp
  have r2: "nesting (CHR ''{'') (CHR ''}'') ''OBJ A='' = 0" by code_simp
  have r3: "0 \<le> nesting (CHR ''{'') (CHR ''}'') ''\"k\":1''" by code_simp
  have "declarations (lexer_loop ((''OBJ A='' @ CHR ''{'' # ''\"k\":1'') @ '';'') lexer_init) =
        declarations (lexer_loop (''OBJ A='' @ CHR ''{'' # ''\"k\":1'') lexer_init)"
    using lexer_statement_boundaries [where a = "''OBJ A=''" and p = "''\"k\":1''",
        THEN conjunct2, THEN conjunct2, THEN conjunct2, THEN conjunct2, THEN conjunct2, THEN conjunct2, THEN conjunct2, THEN conjunct2, THEN conjunct1]
      r1 r2 r3
    by blast
  then have r4: "declarations (lexer_loop ''OBJ A={\"k\":1;'' lexer_init) =
                 declarations (lexer_loop ''OBJ A={\"k\":1'' lexer_init)"
    by simp
  have p1: "CHR '';'' \<notin> set ''NUMBER PORT=3000''" by simp
  have p2: "trim ''NUMBER PORT=3000'' \<noteq> []" by code_simp
  have p2': "trim ''NUMBER PORT=3000'' = ''NUMBER PORT=3000''" by code_simp
  have p3: "lexer ''NUMBER PORT=3000'' = [trim ''NUMBER PORT=3000'']"
    using lexer_statement_boundaries [where input = "''NUMBER PORT=3000''",
        THEN conjunct2, THEN conjunct2, THEN conjunct2, THEN conjunct2, THEN conjunct2, THEN conjunct2, THEN conjunct2, THEN conjunct2, THEN conjunct2, THEN conjunct2, THEN conjunct2, THEN conjunct2, THEN conjunct2, THEN conjunct2, THEN conjunct2, THEN conjunct2, THEN conjunct2]
      p1 p2 by blast
  from l c n d e t o l2 c2 n2 d2 q1 q2 q3 s1 s2 s3 b1 b2 b3 b4 r1 r2 r3 r4 p1 p2 p3
  show ?thesis unfolding t' p2' by (intro conjI)
qed


section \<open>The tokenizer: \<^verbatim>\<open>tokenize\<close> of lexer.ts\<close>

text \<open>
  \<^verbatim>\<open>TokenType\<close> of types.ts. The keyword type is \<^verbatim>\<open>'TYPE'\<close> in the source; it is
  \<open>TYPE_KEYWORD\<close> here. A token of lexer.ts has a type and, for literals and words, a
  value (\<^verbatim>\<open>value?: string\<close>); the \<^verbatim>\<open>line\<close> and \<^verbatim>\<open>column\<close> fields that types.ts declares are
  never written or read.
\<close>

datatype TokenType =
    TYPE_KEYWORD | IDENTIFIER | EQUALS | STRING_LITERAL | NUMBER_LITERAL | BOOLEAN_LITERAL
  | L_BRACKET | R_BRACKET | L_BRACE | R_BRACE | COLON | COMMA | NEWLINE | WHITESPACE
  | EOF | UNDERSCORE | WORD | COMMA_LITERAL | SEMICOLON | KEYWORD

record Token =
  ttype :: TokenType
  tvalue :: "string option"

text \<open>\<^verbatim>\<open>Unexpected character: 'c' at position i\<close>.\<close>

datatype tokenize_error = UnexpectedCharacter char nat

definition type_keywords :: "string list" where
  "type_keywords = [''NUMBER'', ''STRING'', ''BOOL'', ''ARRAY'', ''OBJ'']"

definition punct :: "TokenType \<Rightarrow> Token" where
  "punct t = \<lparr> ttype = t, tvalue = None \<rparr>"

text \<open>The cases of the \<^verbatim>\<open>switch\<close> that push a token without a value.\<close>

definition symbol_token :: "char \<Rightarrow> TokenType option" where
  "symbol_token ch =
     (if ch = CHR ''='' then Some EQUALS
      else if ch = CHR '';'' then Some SEMICOLON
      else if ch = CHR ''{'' then Some L_BRACE
      else if ch = CHR ''}'' then Some R_BRACE
      else if ch = CHR ''['' then Some L_BRACKET
      else if ch = CHR '']'' then Some R_BRACKET
      else if ch = CHR '','' then Some COMMA
      else if ch = CHR '':'' then Some COLON
      else None)"

text \<open>The classification of a word: a type keyword, a boolean literal or an identifier.\<close>

definition word_token :: "string \<Rightarrow> Token" where
  "word_token word =
     (if word \<in> set type_keywords then \<lparr> ttype = TYPE_KEYWORD, tvalue = Some word \<rparr>
      else if word = ''true'' \<or> word = ''false'' then \<lparr> ttype = BOOLEAN_LITERAL, tvalue = Some word \<rparr>
      else \<lparr> ttype = IDENTIFIER, tvalue = Some word \<rparr>)"

text \<open>
  The \<^verbatim>\<open>while (i < declaration.length)\<close> loop. The second argument is the text from
  index \<open>i\<close> on. The inner loops of the source collect the characters up to the next
  double quote, the digits, and the word characters. After a string the source
  increments \<open>i\<close> once more (\<^verbatim>\<open>i++; // skip closing "\<close>) whether or not a quote is
  there: one character is dropped if there is one.
\<close>

function tokenize_loop :: "nat \<Rightarrow> string \<Rightarrow> Token list \<Rightarrow> tokenize_error + Token list" where
  "tokenize_loop i [] tokens = Inr (tokens @ [punct EOF])"
| "tokenize_loop i (ch # rest) tokens =
     (if is_space ch then tokenize_loop (i + 1) rest tokens
      else case symbol_token ch of
        Some t \<Rightarrow> tokenize_loop (i + 1) rest (tokens @ [punct t])
      | None \<Rightarrow>
         if ch = CHR 0x22 then
           (let str = takeWhile (\<lambda>c. c \<noteq> CHR 0x22) rest in
            tokenize_loop (i + 1 + length str + 1)
              (drop 1 (dropWhile (\<lambda>c. c \<noteq> CHR 0x22) rest))
              (tokens @ [\<lparr> ttype = STRING_LITERAL, tvalue = Some str \<rparr>]))
         else if is_digit ch then
           (let num = takeWhile is_digit (ch # rest) in
            tokenize_loop (i + length num) (dropWhile is_digit rest)
              (tokens @ [\<lparr> ttype = NUMBER_LITERAL, tvalue = Some num \<rparr>]))
         else if is_alpha ch then
           (let word = takeWhile is_word (ch # rest) in
            tokenize_loop (i + length word) (dropWhile is_word rest)
              (tokens @ [word_token word]))
         else Inl (UnexpectedCharacter ch i))"
  by pat_completeness auto
termination
  by (relation "measure (\<lambda>(i, s, t). length s)")
     (auto simp: less_Suc_eq_le length_dropWhile_le intro: le_trans [OF diff_le_self])

definition tokenize :: "string \<Rightarrow> tokenize_error + Token list" where
  "tokenize declaration = tokenize_loop 0 declaration []"


section \<open>The runtime's \<^verbatim>\<open>Number(string)\<close>\<close>

text \<open>
  \<^verbatim>\<open>Number\<close> applied to a string is the StringToNumber operation of ECMAScript, defined
  by the grammar StringNumericLiteral: white space at both ends is dropped; the empty
  string is 0; \<^verbatim>\<open>0x\<close>, \<^verbatim>\<open>0o\<close> and \<^verbatim>\<open>0b\<close> introduce an unsigned integer in base 16, 8
  and 2; otherwise the text is an optionally signed decimal literal, which is
  \<^verbatim>\<open>Infinity\<close> or digits with an optional fraction and an optional exponent. Any other
  text is NaN.

  A Number is NaN, an infinity, or \<open>Num q\<close>: the finite 64-bit float nearest to the
  mathematical value \<open>q\<close>. The rounding of \<open>q\<close> to that float is not computed: the
  development keeps \<open>q\<close>.
\<close>


datatype jsnumber = NaN | PosInfinity | NegInfinity | Num rat

text \<open>The global \<^verbatim>\<open>isNaN\<close>, on a Number.\<close>

definition isNaN :: "jsnumber \<Rightarrow> bool" where
  "isNaN n = (n = NaN)"

text \<open>\<^verbatim>\<open>Number.isFinite\<close>: neither NaN nor an infinity.\<close>

definition isFinite :: "jsnumber \<Rightarrow> bool" where
  "isFinite n = (case n of Num q \<Rightarrow> True | _ \<Rightarrow> False)"

text \<open>The value of a digit in a base up to 16, and of a string of digits.\<close>

definition digit_value :: "char \<Rightarrow> nat" where
  "digit_value c =
     (if is_digit c then of_char c - 48
      else if 97 \<le> (of_char c :: nat) \<and> (of_char c :: nat) \<le> 102 then of_char c - 87
      else if 65 \<le> (of_char c :: nat) \<and> (of_char c :: nat) \<le> 70 then of_char c - 55
      else 0)"

definition radix_value :: "nat \<Rightarrow> string \<Rightarrow> nat" where
  "radix_value b ds = foldl (\<lambda>n c. b * n + digit_value c) 0 ds"

definition is_radix_digit :: "nat \<Rightarrow> char \<Rightarrow> bool" where
  "is_radix_digit b c =
     ((is_digit c \<or> (97 \<le> (of_char c :: nat) \<and> (of_char c :: nat) \<le> 102) \<or>
       (65 \<le> (of_char c :: nat) \<and> (of_char c :: nat) \<le> 70)) \<and> digit_value c < b)"

text \<open>The exponent part: \<^verbatim>\<open>e\<close> or \<^verbatim>\<open>E\<close>, an optional sign, digits; none is exponent 0.\<close>

definition pow10 :: "int \<Rightarrow> rat" where
  "pow10 e = (if 0 \<le> e then 10 ^ nat e else 1 / 10 ^ nat (- e))"

definition signed_integer :: "string \<Rightarrow> int option" where
  "signed_integer s =
     (case s of
        [] \<Rightarrow> None
      | c # t \<Rightarrow>
          if c = CHR ''+'' \<and> t \<noteq> [] \<and> list_all is_digit t then Some (int (radix_value 10 t))
          else if c = CHR ''-'' \<and> t \<noteq> [] \<and> list_all is_digit t then Some (- int (radix_value 10 t))
          else if list_all is_digit s then Some (int (radix_value 10 s))
          else None)"

definition exponent_part :: "string \<Rightarrow> int option" where
  "exponent_part s =
     (case s of
        [] \<Rightarrow> Some 0
      | c # t \<Rightarrow> if c = CHR ''e'' \<or> c = CHR ''E'' then signed_integer t else None)"

text \<open>
  The Number for a mathematical value \<open>q\<close>: the nearest 64-bit float, which is
  an infinity from \<open>2 ^ 1024 - 2 ^ 970\<close> on (half way between the largest float
  and \<open>2 ^ 1024\<close>).
\<close>

definition overflow_bound :: rat where
  "overflow_bound = 179769313486231580793728971405303415079934132710037826936173778980444968292764750946649017977587207096330286416692887910946555547851940402630657488671505820681908902000708383676273854845817711531764475730270069855571366959622842914819860834936475292719074168444365510704342711559699508093042880177904174497792"

definition Number_value :: "rat \<Rightarrow> jsnumber" where
  "Number_value q =
     (if overflow_bound \<le> q then PosInfinity
      else if q \<le> - overflow_bound then NegInfinity
      else Num q)"

text \<open>
  StrUnsignedDecimalLiteral: \<^verbatim>\<open>Infinity\<close>, or \<^verbatim>\<open>digits . digits? exponent?\<close>, or
  \<^verbatim>\<open>. digits exponent?\<close>, or \<^verbatim>\<open>digits exponent?\<close>.
\<close>

definition StrUnsignedDecimalLiteral :: "string \<Rightarrow> jsnumber" where
  "StrUnsignedDecimalLiteral s =
     (if s = ''Infinity'' then PosInfinity
      else
        (let ip = takeWhile is_digit s;
             r1 = dropWhile is_digit s;
             fp = (case r1 of [] \<Rightarrow> [] | c # t \<Rightarrow> if c = CHR ''.'' then takeWhile is_digit t else []);
             r2 = (case r1 of [] \<Rightarrow> [] | c # t \<Rightarrow> if c = CHR ''.'' then dropWhile is_digit t else r1)
         in if ip = [] \<and> fp = [] then NaN
            else (case exponent_part r2 of
                    None \<Rightarrow> NaN
                  | Some e \<Rightarrow>
                      Number_value ((of_nat (radix_value 10 ip) +
                                     of_nat (radix_value 10 fp) / 10 ^ length fp) * pow10 e))))"

definition negate :: "jsnumber \<Rightarrow> jsnumber" where
  "negate n = (case n of NaN \<Rightarrow> NaN | PosInfinity \<Rightarrow> NegInfinity
               | NegInfinity \<Rightarrow> PosInfinity | Num q \<Rightarrow> Num (- q))"

definition StrDecimalLiteral :: "string \<Rightarrow> jsnumber" where
  "StrDecimalLiteral s =
     (case s of
        [] \<Rightarrow> NaN
      | c # t \<Rightarrow>
          if c = CHR ''+'' then StrUnsignedDecimalLiteral t
          else if c = CHR ''-'' then negate (StrUnsignedDecimalLiteral t)
          else StrUnsignedDecimalLiteral s)"

text \<open>The unsigned literals in base 16, 8 and 2; \<open>None\<close> when the text has no such prefix.\<close>

definition NonDecimalIntegerLiteral :: "string \<Rightarrow> jsnumber option" where
  "NonDecimalIntegerLiteral s =
     (case s of
        z # x # ds \<Rightarrow>
          if z = CHR ''0'' \<and> (x = CHR ''x'' \<or> x = CHR ''X'' \<or> x = CHR ''o'' \<or> x = CHR ''O'' \<or>
                              x = CHR ''b'' \<or> x = CHR ''B'')
          then (let b = (if x = CHR ''x'' \<or> x = CHR ''X'' then 16
                         else if x = CHR ''o'' \<or> x = CHR ''O'' then 8 else 2 :: nat)
                in if ds \<noteq> [] \<and> list_all (is_radix_digit b) ds
                   then Some (Number_value (of_nat (radix_value b ds))) else Some NaN)
          else None
      | _ \<Rightarrow> None)"

definition Number :: "string \<Rightarrow> jsnumber" where
  "Number s =
     (let t = trim s in
      if t = [] then Num 0
      else (case NonDecimalIntegerLiteral t of
              Some n \<Rightarrow> n
            | None \<Rightarrow> StrDecimalLiteral t))"


section \<open>The literal parser: \<^verbatim>\<open>parser\<close> of parser.ts\<close>

text \<open>
  The values the parser builds (\<^verbatim>\<open>any\<close> in the source): what \<^verbatim>\<open>token.value\<close> of a
  token without a value gives is \<^verbatim>\<open>undefined\<close>. An object is its prototype and the list
  of its own properties. The prototype is \<open>None\<close> for \<^verbatim>\<open>Object.prototype\<close>, which every
  object literal \<^verbatim>\<open>{}\<close> starts with, or the value that an assignment to \<^verbatim>\<open>__proto__\<close>
  has put in its place. The own properties are in the order of their first assignment
  (the runtime enumerates keys that are array indices before the others; nothing here
  depends on an order of enumeration).
\<close>

datatype jsvalue =
    VUndefined | VString string | VNumber jsnumber | VBoolean bool
  | VArray "jsvalue list" | VObject "jsvalue option" "(string \<times> jsvalue) list"

text \<open>
  \<^verbatim>\<open>Expected T, got U\<close> of \<^verbatim>\<open>eat\<close> (\<open>None\<close> when there is no token),
  \<^verbatim>\<open>Unexpected literal token: T\<close>, and the TypeError of reading \<^verbatim>\<open>.type\<close> of
  \<^verbatim>\<open>undefined\<close> when \<^verbatim>\<open>current\<close> is past the last token.
\<close>

datatype parse_error =
    Expected TokenType "TokenType option"
  | UnexpectedLiteralToken TokenType
  | TypeError

definition eat :: "Token list \<Rightarrow> nat \<Rightarrow> TokenType \<Rightarrow> parse_error + (Token \<times> nat)" where
  "eat tokens current expectedType =
     (case nth_opt tokens current of
        None \<Rightarrow> Inl (Expected expectedType None)
      | Some token \<Rightarrow>
          if ttype token \<noteq> expectedType then Inl (Expected expectedType (Some (ttype token)))
          else Inr (token, current + 1))"

text \<open>
  \<^verbatim>\<open>obj[key] = value\<close> on the own properties of an object: a new key is appended, an
  existing key keeps its place. The key of a token without a value is the string
  \<^verbatim>\<open>undefined\<close>.
\<close>

fun obj_set :: "('k \<times> 'v) list \<Rightarrow> 'k \<Rightarrow> 'v \<Rightarrow> ('k \<times> 'v) list" where
  "obj_set [] k v = [(k, v)]"
| "obj_set ((k', v') # ps) k v = (if k' = k then (k, v) # ps else (k', v') # obj_set ps k v)"

definition property_key :: "string option \<Rightarrow> string" where
  "property_key v = (case v of None \<Rightarrow> ''undefined'' | Some s \<Rightarrow> s)"

text \<open>
  \<^verbatim>\<open>obj[key] = value\<close> in \<^verbatim>\<open>parseObject\<close>, on the object under construction: its
  prototype and its own properties. The key \<^verbatim>\<open>__proto__\<close> names the accessor of
  \<^verbatim>\<open>Object.prototype\<close>, which every value the parser builds inherits: the assignment
  calls its setter, which makes a value that is an object (an array or an object here)
  the prototype of \<^verbatim>\<open>obj\<close> and ignores any other value, and no own property is added.
  Under any other key the assignment creates or updates an own property of \<^verbatim>\<open>obj\<close>,
  whatever the prototype holds: the properties of the values the parser builds, of
  \<^verbatim>\<open>Object.prototype\<close> and of \<^verbatim>\<open>Array.prototype\<close> are writable data properties.
\<close>

definition is_object_value :: "jsvalue \<Rightarrow> bool" where
  "is_object_value v = (case v of VArray xs \<Rightarrow> True | VObject p ps \<Rightarrow> True | _ \<Rightarrow> False)"

fun set_property ::
  "jsvalue option \<times> (string \<times> jsvalue) list \<Rightarrow> string \<Rightarrow> jsvalue \<Rightarrow>
   jsvalue option \<times> (string \<times> jsvalue) list" where
  "set_property (proto, props) key v =
     (if key = ''__proto__'' then (if is_object_value v then (Some v, props) else (proto, props))
      else (proto, obj_set props key v))"

text \<open>
  \<^verbatim>\<open>parseLiteral\<close>, \<^verbatim>\<open>parseArray\<close> and \<^verbatim>\<open>parseObject\<close> share the cursor \<^verbatim>\<open>current\<close>:
  each takes it and returns it with its result. The two \<^verbatim>\<open>while\<close> loops are
  \<open>parseArray_loop\<close> and \<open>parseObject_loop\<close>.
\<close>

function parseLiteral :: "Token list \<Rightarrow> nat \<Rightarrow> parse_error + (jsvalue \<times> nat)"
  and parseArray :: "Token list \<Rightarrow> nat \<Rightarrow> parse_error + (jsvalue list \<times> nat)"
  and parseArray_loop :: "Token list \<Rightarrow> nat \<Rightarrow> jsvalue list \<Rightarrow> parse_error + (jsvalue list \<times> nat)"
  and parseObject :: "Token list \<Rightarrow> nat \<Rightarrow>
                      parse_error + ((jsvalue option \<times> (string \<times> jsvalue) list) \<times> nat)"
  and parseObject_loop :: "Token list \<Rightarrow> nat \<Rightarrow> jsvalue option \<times> (string \<times> jsvalue) list \<Rightarrow>
                           parse_error + ((jsvalue option \<times> (string \<times> jsvalue) list) \<times> nat)"
where
  "parseLiteral tokens current =
     (case nth_opt tokens current of
        None \<Rightarrow> Inl TypeError
      | Some token \<Rightarrow>
          if ttype token = STRING_LITERAL then
            Inr (case tvalue token of None \<Rightarrow> VUndefined | Some s \<Rightarrow> VString s, current + 1)
          else if ttype token = NUMBER_LITERAL then
            Inr (VNumber (case tvalue token of None \<Rightarrow> NaN | Some s \<Rightarrow> Number s), current + 1)
          else if ttype token = BOOLEAN_LITERAL then
            Inr (VBoolean (tvalue token = Some ''true''), current + 1)
          else if ttype token = L_BRACKET then
            (case parseArray tokens current of
               Inl e \<Rightarrow> Inl e
             | Inr (elements, c) \<Rightarrow> Inr (VArray elements, c))
          else if ttype token = L_BRACE then
            (case parseObject tokens current of
               Inl e \<Rightarrow> Inl e
             | Inr (obj, c) \<Rightarrow> Inr (VObject (fst obj) (snd obj), c))
          else Inl (UnexpectedLiteralToken (ttype token)))"
| "parseArray tokens current =
     (case eat tokens current L_BRACKET of
        Inl e \<Rightarrow> Inl e
      | Inr (t, c) \<Rightarrow>
          (case parseArray_loop tokens c [] of
             Inl e \<Rightarrow> Inl e
           | Inr (elements, c') \<Rightarrow>
               (case eat tokens c' R_BRACKET of
                  Inl e \<Rightarrow> Inl e
                | Inr (t', c'') \<Rightarrow> Inr (elements, c''))))"
| "parseArray_loop tokens current elements =
     (case nth_opt tokens current of
        None \<Rightarrow> Inl TypeError
      | Some token \<Rightarrow>
          if ttype token \<noteq> R_BRACKET then
            (case parseLiteral tokens current of
               Inl e \<Rightarrow> Inl e
             | Inr (v, c) \<Rightarrow>
                 (case nth_opt tokens c of
                    None \<Rightarrow> Inl TypeError
                  | Some token' \<Rightarrow>
                      if ttype token' = COMMA then
                        (case eat tokens c COMMA of
                           Inl e \<Rightarrow> Inl e
                         | Inr (t, c') \<Rightarrow> parseArray_loop tokens c' (elements @ [v]))
                      else parseArray_loop tokens c (elements @ [v])))
          else Inr (elements, current))"
| "parseObject tokens current =
     (case eat tokens current L_BRACE of
        Inl e \<Rightarrow> Inl e
      | Inr (t, c) \<Rightarrow>
          (case parseObject_loop tokens c (None, []) of
             Inl e \<Rightarrow> Inl e
           | Inr (obj, c') \<Rightarrow>
               (case eat tokens c' R_BRACE of
                  Inl e \<Rightarrow> Inl e
                | Inr (t', c'') \<Rightarrow> Inr (obj, c''))))"
| "parseObject_loop tokens current obj =
     (case nth_opt tokens current of
        None \<Rightarrow> Inl TypeError
      | Some token \<Rightarrow>
          if ttype token \<noteq> R_BRACE then
            (case eat tokens current STRING_LITERAL of
               Inl e \<Rightarrow> Inl e
             | Inr (keyToken, c1) \<Rightarrow>
                 (case eat tokens c1 COLON of
                    Inl e \<Rightarrow> Inl e
                  | Inr (t, c2) \<Rightarrow>
                      (case parseLiteral tokens c2 of
                         Inl e \<Rightarrow> Inl e
                       | Inr (v, c) \<Rightarrow>
                           (case nth_opt tokens c of
                              None \<Rightarrow> Inl TypeError
                            | Some token' \<Rightarrow>
                                if ttype token' = COMMA then
                                  (case eat tokens c COMMA of
                                     Inl e \<Rightarrow> Inl e
                                   | Inr (t', c') \<Rightarrow>
                                       parseObject_loop tokens c'
                                         (set_property obj (property_key (tvalue keyToken)) v))
                                else parseObject_loop tokens c
                                       (set_property obj (property_key (tvalue keyToken)) v)))))
          else Inr (obj, current))"
  by pat_completeness auto



text \<open>
  Termination: every call that returns has moved the cursor forward, so the number of
  tokens after the cursor decreases around each loop.
\<close>

lemma eat_Inr: "eat tokens c t = Inr (tok, c') \<Longrightarrow> c' = c + 1 \<and> c < length tokens"
  by (auto simp: eat_def nth_opt_def split: option.splits if_splits)

lemma parser_progress:
  "parseLiteral_parseArray_parseArray_loop_parseObject_parseObject_loop_dom (Inl (Inl (tokens, current))) \<Longrightarrow>
     parseLiteral tokens current = Inr (v, c') \<Longrightarrow> current < c'"
  "parseLiteral_parseArray_parseArray_loop_parseObject_parseObject_loop_dom (Inl (Inr (tokens, current))) \<Longrightarrow>
     parseArray tokens current = Inr (xs, c') \<Longrightarrow> current < c'"
  "parseLiteral_parseArray_parseArray_loop_parseObject_parseObject_loop_dom (Inr (Inl (tokens, current, elements))) \<Longrightarrow>
     parseArray_loop tokens current elements = Inr (xs, c') \<Longrightarrow> current \<le> c'"
  "parseLiteral_parseArray_parseArray_loop_parseObject_parseObject_loop_dom (Inr (Inr (Inl (tokens, current)))) \<Longrightarrow>
     parseObject tokens current = Inr (ob, c') \<Longrightarrow> current < c'"
  "parseLiteral_parseArray_parseArray_loop_parseObject_parseObject_loop_dom (Inr (Inr (Inr (tokens, current, obj)))) \<Longrightarrow>
     parseObject_loop tokens current obj = Inr (ob, c') \<Longrightarrow> current \<le> c'"
proof (induct arbitrary: v c' and xs c' and xs c' and ob c' and ob c'
       rule: parseLiteral_parseArray_parseArray_loop_parseObject_parseObject_loop.pinduct)
  case (1 tokens current)
  from "1.prems" "1.hyps"(1) show ?case
    by (auto simp: parseLiteral.psimps split: option.splits if_splits sum.splits prod.splits
             dest: "1.hyps"(2,3))
next
  case (2 tokens current)
  from "2.prems" "2.hyps"(1) obtain t c el c1 t'
    where e1: "eat tokens current L_BRACKET = Inr (t, c)"
      and l: "parseArray_loop tokens c [] = Inr (el, c1)"
      and e2: "eat tokens c1 R_BRACKET = Inr (t', c')"
    by (auto simp: parseArray.psimps split: sum.splits prod.splits)
  from "2.hyps"(2) [OF e1 refl l] eat_Inr [OF e1] eat_Inr [OF e2] show ?case by simp
next
  case (3 tokens current elements)
  from "3.prems" "3.hyps"(1) obtain token where tk: "nth_opt tokens current = Some token"
    by (auto simp: parseArray_loop.psimps split: option.splits)
  show ?case
  proof (cases "ttype token = R_BRACKET")
    case True
    with "3.prems" "3.hyps"(1) tk show ?thesis by (simp add: parseArray_loop.psimps)
  next
    case False
    with "3.prems" "3.hyps"(1) tk obtain v c token'
      where pl: "parseLiteral tokens current = Inr (v, c)"
        and tk': "nth_opt tokens c = Some token'"
      by (auto simp: parseArray_loop.psimps split: option.splits sum.splits prod.splits)
    from "3.hyps"(2) [OF tk False pl] have lt: "current < c" .
    show ?thesis
    proof (cases "ttype token' = COMMA")
      case True
      with "3.prems" "3.hyps"(1) tk False pl tk' obtain t c2
        where e: "eat tokens c COMMA = Inr (t, c2)"
          and r: "parseArray_loop tokens c2 (elements @ [v]) = Inr (xs, c')"
        by (auto simp: parseArray_loop.psimps split: sum.splits prod.splits)
      from "3.hyps"(3) [OF tk False pl refl tk' True e refl r] eat_Inr [OF e] lt
      show ?thesis by simp
    next
      case F: False
      with "3.prems" "3.hyps"(1) tk False pl tk'
      have r: "parseArray_loop tokens c (elements @ [v]) = Inr (xs, c')"
        by (auto simp: parseArray_loop.psimps split: sum.splits prod.splits)
      from "3.hyps"(4) [OF tk False pl refl tk' F r] lt show ?thesis by simp
    qed
  qed
next
  case (4 tokens current)
  from "4.prems" "4.hyps"(1) obtain t c el c1 t'
    where e1: "eat tokens current L_BRACE = Inr (t, c)"
      and l: "parseObject_loop tokens c (None, []) = Inr (el, c1)"
      and e2: "eat tokens c1 R_BRACE = Inr (t', c')"
    by (auto simp: parseObject.psimps split: sum.splits prod.splits)
  from "4.hyps"(2) [OF e1 refl l] eat_Inr [OF e1] eat_Inr [OF e2] show ?case by simp
next
  case (5 tokens current obj)
  from "5.prems" "5.hyps"(1) obtain token where tk: "nth_opt tokens current = Some token"
    by (auto simp: parseObject_loop.psimps split: option.splits)
  show ?case
  proof (cases "ttype token = R_BRACE")
    case True
    with "5.prems" "5.hyps"(1) tk show ?thesis by (simp add: parseObject_loop.psimps)
  next
    case False
    with "5.prems" "5.hyps"(1) tk obtain keyToken c1 t c2 v c token'
      where e1: "eat tokens current STRING_LITERAL = Inr (keyToken, c1)"
        and e2: "eat tokens c1 COLON = Inr (t, c2)"
        and pl: "parseLiteral tokens c2 = Inr (v, c)"
        and tk': "nth_opt tokens c = Some token'"
      by (auto simp: parseObject_loop.psimps split: option.splits sum.splits prod.splits)
    from "5.hyps"(2) [OF tk False e1 refl e2 refl pl] eat_Inr [OF e1] eat_Inr [OF e2]
    have lt: "current < c" by simp
    show ?thesis
    proof (cases "ttype token' = COMMA")
      case True
      with "5.prems" "5.hyps"(1) tk False e1 e2 pl tk' obtain t' c3
        where e: "eat tokens c COMMA = Inr (t', c3)"
          and r: "parseObject_loop tokens c3 (set_property obj (property_key (tvalue keyToken)) v) =
                    Inr (ob, c')"
        by (auto simp: parseObject_loop.psimps split: sum.splits prod.splits)
      from "5.hyps"(3) [OF tk False e1 refl e2 refl pl refl tk' True e refl r] eat_Inr [OF e] lt
      show ?thesis by simp
    next
      case F: False
      with "5.prems" "5.hyps"(1) tk False e1 e2 pl tk'
      have r: "parseObject_loop tokens c (set_property obj (property_key (tvalue keyToken)) v) =
                 Inr (ob, c')"
        by (auto simp: parseObject_loop.psimps split: sum.splits prod.splits)
      from "5.hyps"(4) [OF tk False e1 refl e2 refl pl refl tk' F r] lt show ?thesis by simp
    qed
  qed
qed

termination parseLiteral
proof (relation "measures
    [\<lambda>x. case x of
        Inl (Inl (ts, c)) \<Rightarrow> length ts - c
      | Inl (Inr (ts, c)) \<Rightarrow> length ts - c
      | Inr (Inl (ts, c, a)) \<Rightarrow> length ts - c
      | Inr (Inr (Inl (ts, c))) \<Rightarrow> length ts - c
      | Inr (Inr (Inr (ts, c, a))) \<Rightarrow> length ts - c,
     \<lambda>x. case x of
        Inl (Inl (ts, c)) \<Rightarrow> 1
      | Inl (Inr (ts, c)) \<Rightarrow> 0
      | Inr (Inl (ts, c, a)) \<Rightarrow> 2
      | Inr (Inr (Inl (ts, c))) \<Rightarrow> 0
      | Inr (Inr (Inr (ts, c, a))) \<Rightarrow> 2]", goal_cases)
  case 1
  show ?case by simp
next
  case (2 tokens current x2)
  then show ?case by simp
next
  case (3 tokens current x2)
  then show ?case by simp
next
  case (4 tokens current b x y)
  then show ?case using eat_Inr [of tokens current L_BRACKET x y] by auto
next
  case (5 tokens current elements x2)
  then show ?case by simp
next
  case (6 tokens current elements x2 b x y x2a ba xa ya)
  then show ?case
    using parser_progress(1) [of tokens current x y] eat_Inr [of tokens y COMMA xa ya]
    by (auto simp: nth_opt_def split: if_splits)
next
  case (7 tokens current elements x2 b x y x2a)
  then show ?case
    using parser_progress(1) [of tokens current x y]
    by (auto simp: nth_opt_def split: if_splits)
next
  case (8 tokens current b x y)
  then show ?case using eat_Inr [of tokens current L_BRACE x y] by auto
next
  case (9 tokens current obj x2 b x y ba xa ya)
  then show ?case
    using eat_Inr [of tokens current STRING_LITERAL x y] eat_Inr [of tokens y COLON xa ya]
    by auto
next
  case (10 tokens current obj x2 b x y ba xa ya bb xaa yb x2a bc xab yc)
  then show ?case
    using eat_Inr [of tokens current STRING_LITERAL x y] eat_Inr [of tokens y COLON xa ya]
      parser_progress(1) [of tokens ya xaa yb] eat_Inr [of tokens yb COMMA xab yc]
    by (auto simp: nth_opt_def split: if_splits)
next
  case (11 tokens current obj x2 b x y ba xa ya bb xaa yb x2a)
  then show ?case
    using eat_Inr [of tokens current STRING_LITERAL x y] eat_Inr [of tokens y COLON xa ya]
      parser_progress(1) [of tokens ya xaa yb]
    by (auto simp: nth_opt_def split: if_splits)
qed






section \<open>Properties of the tokenizer\<close>

lemma symbol_token_quote: "symbol_token (CHR 0x22) = None"
  by (simp add: symbol_token_def)

lemma tokenize_loop_unterminated:
  assumes "CHR 0x22 \<notin> set str"
  shows "tokenize_loop i (CHR 0x22 # str) tokens =
         Inr (tokens @ [\<lparr> ttype = STRING_LITERAL, tvalue = Some str \<rparr>, punct EOF])"
proof -
  have tw: "takeWhile (\<lambda>c. c \<noteq> CHR 0x22) str = str"
    and dw: "dropWhile (\<lambda>c. c \<noteq> CHR 0x22) str = []"
    using assms by (auto simp: takeWhile_eq_all_conv)
  show ?thesis
    by (simp add: symbol_token_quote is_space_def Let_def tw dw)
qed

lemma tokenize_loop_closed:
  assumes "CHR 0x22 \<notin> set str"
  shows "tokenize_loop i (CHR 0x22 # str @ CHR 0x22 # rest) tokens =
         tokenize_loop (i + length str + 2) rest
           (tokens @ [\<lparr> ttype = STRING_LITERAL, tvalue = Some str \<rparr>])"
proof -
  have tw: "takeWhile (\<lambda>c. c \<noteq> CHR 0x22) (str @ CHR 0x22 # rest) = str"
    using assms by (auto simp: takeWhile_tail)
  have dw: "dropWhile (\<lambda>c. c \<noteq> CHR 0x22) (str @ CHR 0x22 # rest) = CHR 0x22 # rest"
    using assms by (auto simp: dropWhile_append3)
  show ?thesis
    by (simp add: symbol_token_quote is_space_def Let_def tw dw)
qed


text \<open>
  Claim C6. A double quote that no later double quote closes does not make \<open>tokenize\<close>
  fail: the string literal runs to the end of the input and the token list ends as
  usual, as for \<^verbatim>\<open>STRING A="abc\<close>. A string that is closed gives the characters
  between the quotes as they stand, a backslash included.
\<close>

theorem tokenize_unterminated_string:
  "(CHR 0x22 \<notin> set str \<longrightarrow>
      tokenize_loop i (CHR 0x22 # str) tokens =
        Inr (tokens @ [\<lparr> ttype = STRING_LITERAL, tvalue = Some str \<rparr>, punct EOF])) \<and>
   (CHR 0x22 \<notin> set str \<longrightarrow>
      tokenize_loop i (CHR 0x22 # str @ CHR 0x22 # rest) tokens =
        tokenize_loop (i + length str + 2) rest
          (tokens @ [\<lparr> ttype = STRING_LITERAL, tvalue = Some str \<rparr>])) \<and>
   tokenize ''STRING A=\"abc'' =
     Inr [\<lparr> ttype = TYPE_KEYWORD, tvalue = Some ''STRING'' \<rparr>,
          \<lparr> ttype = IDENTIFIER, tvalue = Some ''A'' \<rparr>, punct EQUALS,
          \<lparr> ttype = STRING_LITERAL, tvalue = Some ''abc'' \<rparr>, punct EOF]"
proof -
  have ex: "tokenize ''STRING A=\"abc'' =
     Inr [\<lparr> ttype = TYPE_KEYWORD, tvalue = Some ''STRING'' \<rparr>,
          \<lparr> ttype = IDENTIFIER, tvalue = Some ''A'' \<rparr>, punct EQUALS,
          \<lparr> ttype = STRING_LITERAL, tvalue = Some ''abc'' \<rparr>, punct EOF]"
    by code_simp
  show ?thesis
    using tokenize_loop_unterminated [of str i tokens] tokenize_loop_closed [of str i rest tokens] ex
    by blast
qed

theorem tokenize_unterminated_string_witness:
  "CHR 0x22 \<notin> set [CHR ''a'', CHR 0x5C, CHR ''n''] \<and>
   tokenize_loop 0 (CHR 0x22 # [CHR ''a'', CHR 0x5C, CHR ''n'']) [] =
     Inr [\<lparr> ttype = STRING_LITERAL, tvalue = Some [CHR ''a'', CHR 0x5C, CHR ''n''] \<rparr>, punct EOF] \<and>
   tokenize_loop 0 (CHR 0x22 # [CHR ''a'', CHR 0x5C, CHR ''n''] @ CHR 0x22 # '';'') [] =
     Inr [\<lparr> ttype = STRING_LITERAL, tvalue = Some [CHR ''a'', CHR 0x5C, CHR ''n''] \<rparr>,
          punct SEMICOLON, punct EOF]"
proof -
  have h: "CHR 0x22 \<notin> set [CHR ''a'', CHR 0x5C, CHR ''n'']" by simp
  have r: "tokenize_loop (0 + length [CHR ''a'', CHR 0x5C, CHR ''n''] + 2) '';''
             ([] @ [\<lparr> ttype = STRING_LITERAL, tvalue = Some [CHR ''a'', CHR 0x5C, CHR ''n''] \<rparr>]) =
           Inr [\<lparr> ttype = STRING_LITERAL, tvalue = Some [CHR ''a'', CHR 0x5C, CHR ''n''] \<rparr>,
                punct SEMICOLON, punct EOF]"
    by (simp add: is_space_def symbol_token_def)
  show ?thesis
    using h r tokenize_unterminated_string [of "[CHR ''a'', CHR 0x5C, CHR ''n'']" 0 "[]" "'';''"]
    by simp
qed


section \<open>Properties of the literal parser\<close>

declare parseLiteral.simps [simp del] parseArray.simps [simp del] parseArray_loop.simps [simp del]
  parseObject.simps [simp del] parseObject_loop.simps [simp del]











section \<open>The runtime's \<^verbatim>\<open>JSON.parse\<close>\<close>

text \<open>
  \<^verbatim>\<open>JSON.parse\<close> is specified by the JSON grammar of ECMAScript (ECMA-404): a text is
  accepted when it is one JSON value with optional white space around its tokens, and
  anything else is a SyntaxError.
\<close>

text \<open>
  A JSON value. A string of a JSON text can hold any UTF-16 code unit, written as a
  \<^verbatim>\<open>\u\<close> escape: its code units are natural numbers. An object is the list of its
  members in the order of their first occurrence (the runtime enumerates keys that are
  array indices before the others; nothing here depends on an order of enumeration).
\<close>

type_synonym code_units = "nat list"

datatype json =
    JNull | JBool bool | JNumber jsnumber | JString code_units
  | JArray "json list" | JObject "(code_units \<times> json) list"

text \<open>The tokens of the JSON grammar.\<close>

datatype json_token =
    JT_LBRACE | JT_RBRACE | JT_LBRACKET | JT_RBRACKET | JT_COLON | JT_COMMA
  | JT_STRING code_units | JT_NUMBER jsnumber | JT_TRUE | JT_FALSE | JT_NULL

text \<open>JSON white space is TAB, LF, CR and SPACE only.\<close>

definition is_json_space :: "char \<Rightarrow> bool" where
  "is_json_space c = (c = CHR 0x09 \<or> c = CHR 0x0A \<or> c = CHR 0x0D \<or> c = CHR 0x20)"

definition is_hex_digit :: "char \<Rightarrow> bool" where
  "is_hex_digit c = is_radix_digit 16 c"

text \<open>The one-character escapes after a backslash.\<close>

definition json_escape :: "char \<Rightarrow> nat option" where
  "json_escape e =
     (if e = CHR 0x22 then Some 0x22
      else if e = CHR 0x5C then Some 0x5C
      else if e = CHR ''/'' then Some 0x2F
      else if e = CHR ''b'' then Some 0x08
      else if e = CHR ''f'' then Some 0x0C
      else if e = CHR ''n'' then Some 0x0A
      else if e = CHR ''r'' then Some 0x0D
      else if e = CHR ''t'' then Some 0x09
      else None)"

text \<open>
  The characters of a string after its opening quote, up to the closing quote: no
  control character, a backslash only in an escape. The result is the code units of
  the string and the text after the closing quote.
\<close>

fun json_string_chars :: "string \<Rightarrow> code_units \<Rightarrow> (code_units \<times> string) option" where
  "json_string_chars [] acc = None"
| "json_string_chars (c # cs) acc =
     (if c = CHR 0x22 then Some (acc, cs)
      else if (of_char c :: nat) < 0x20 then None
      else if c = CHR 0x5C then
        (case cs of
           [] \<Rightarrow> None
         | e # es \<Rightarrow>
             if e = CHR ''u'' then
               (case es of
                  h1 # h2 # h3 # h4 # rest \<Rightarrow>
                    if list_all is_hex_digit [h1, h2, h3, h4]
                    then json_string_chars rest (acc @ [radix_value 16 [h1, h2, h3, h4]])
                    else None
                | _ \<Rightarrow> None)
             else (case json_escape e of
                     None \<Rightarrow> None
                   | Some u \<Rightarrow> json_string_chars es (acc @ [u])))
      else json_string_chars cs (acc @ [of_char c]))"

lemma json_string_chars_shorter:
  "json_string_chars s acc = Some (u, rest) \<Longrightarrow> length rest < length s"
proof (induction s acc rule: json_string_chars.induct)
  case (1 acc)
  then show ?case by simp
next
  case (2 c cs acc)
  show ?case
  proof (cases "c = CHR 0x22 \<or> (of_char c :: nat) < 0x20 \<or> c \<noteq> CHR 0x5C")
    case True
    with "2.prems" "2.IH"(3) show ?thesis by (auto split: if_splits intro: less_SucI)
  next
    case False
    then have c: "c \<noteq> CHR 0x22" "\<not> (of_char c :: nat) < 0x20" "c = CHR 0x5C" by auto
    from "2.prems" c obtain e es where cs: "cs = e # es" by (auto split: list.splits)
    show ?thesis
    proof (cases "e = CHR ''u''")
      case True
      with "2.prems" c cs obtain h1 h2 h3 h4 r where es: "es = h1 # h2 # h3 # h4 # r"
        and hx: "list_all is_hex_digit [h1, h2, h3, h4]"
        and rc: "json_string_chars r (acc @ [radix_value 16 [h1, h2, h3, h4]]) = Some (u, rest)"
        by (auto split: list.splits if_splits)
      from "2.IH"(1) [OF c(1,2,3) cs True es refl refl refl hx rc] cs es show ?thesis by simp
    next
      case False
      with "2.prems" c cs obtain x where je: "json_escape e = Some x"
        and rc: "json_string_chars es (acc @ [x]) = Some (u, rest)"
        by (auto split: option.splits)
      from "2.IH"(2) [OF c(1,2,3) cs False je rc] cs show ?thesis by simp
    qed
  qed
qed

text \<open>
  A JSON number: an optional minus, an integer part without a leading zero, an optional
  fraction with at least one digit, an optional exponent with at least one digit.
\<close>

lemma length_dropWhile_less:
  "takeWhile P xs \<noteq> [] \<Longrightarrow> length (dropWhile P xs) < length xs"
  by (induction xs) (auto split: if_splits intro: le_imp_less_Suc length_dropWhile_le)

definition json_digits :: "string \<Rightarrow> (string \<times> string) option" where
  "json_digits s =
     (let ds = takeWhile is_digit s in
      if ds = [] then None else Some (ds, dropWhile is_digit s))"

definition json_integer :: "string \<Rightarrow> (string \<times> string) option" where
  "json_integer s =
     (case json_digits s of
        None \<Rightarrow> None
      | Some (ip, rest) \<Rightarrow> if hd ip = CHR ''0'' \<and> length ip > 1 then None else Some (ip, rest))"

definition json_fraction :: "string \<Rightarrow> (string \<times> string) option" where
  "json_fraction s =
     (case s of
        [] \<Rightarrow> Some ([], [])
      | d # t \<Rightarrow> if d = CHR ''.'' then json_digits t else Some ([], s))"

definition json_exponent :: "string \<Rightarrow> (int \<times> string) option" where
  "json_exponent s =
     (case s of
        [] \<Rightarrow> Some (0, [])
      | e # t \<Rightarrow>
          if e = CHR ''e'' \<or> e = CHR ''E'' then
            (case t of
               [] \<Rightarrow> None
             | g # u \<Rightarrow>
                 if g = CHR ''+'' then
                   map_option (\<lambda>(ds, rest). (int (radix_value 10 ds), rest)) (json_digits u)
                 else if g = CHR ''-'' then
                   map_option (\<lambda>(ds, rest). (- int (radix_value 10 ds), rest)) (json_digits u)
                 else
                   map_option (\<lambda>(ds, rest). (int (radix_value 10 ds), rest)) (json_digits t))
          else Some (0, s))"

definition json_unsigned :: "string \<Rightarrow> (rat \<times> string) option" where
  "json_unsigned s =
     (case json_integer s of
        None \<Rightarrow> None
      | Some (ip, r1) \<Rightarrow>
          (case json_fraction r1 of
             None \<Rightarrow> None
           | Some (fp, r2) \<Rightarrow>
               (case json_exponent r2 of
                  None \<Rightarrow> None
                | Some (e, rest) \<Rightarrow>
                    Some ((of_nat (radix_value 10 ip) +
                           of_nat (radix_value 10 fp) / 10 ^ length fp) * pow10 e, rest))))"

definition json_number :: "string \<Rightarrow> (jsnumber \<times> string) option" where
  "json_number s =
     (case s of
        [] \<Rightarrow> None
      | g # u \<Rightarrow>
          if g = CHR ''-'' then map_option (\<lambda>(q, rest). (Number_value (- q), rest)) (json_unsigned u)
          else map_option (\<lambda>(q, rest). (Number_value q, rest)) (json_unsigned s))"

lemma json_digits_shorter: "json_digits s = Some (ds, rest) \<Longrightarrow> length rest < length s"
  by (auto simp: json_digits_def Let_def split: if_splits dest: length_dropWhile_less)

lemma json_integer_shorter: "json_integer s = Some (ds, rest) \<Longrightarrow> length rest < length s"
  by (auto simp: json_integer_def split: option.splits if_splits dest: json_digits_shorter)

lemma json_fraction_shorter: "json_fraction s = Some (ds, rest) \<Longrightarrow> length rest \<le> length s"
  by (cases s) (auto simp: json_fraction_def split: if_splits dest!: json_digits_shorter)

lemma json_exponent_shorter: "json_exponent s = Some (e, rest) \<Longrightarrow> length rest \<le> length s"
proof (cases s)
  case Nil
  then show "json_exponent s = Some (e, rest) \<Longrightarrow> length rest \<le> length s"
    by (simp add: json_exponent_def)
next
  case (Cons c t)
  assume a: "json_exponent s = Some (e, rest)"
  show "length rest \<le> length s"
  proof (cases "c = CHR ''e'' \<or> c = CHR ''E''")
    case False
    with a Cons show ?thesis by (auto simp: json_exponent_def)
  next
    case True
    with a Cons obtain g u where t: "t = g # u" by (cases t) (auto simp: json_exponent_def)
    from a Cons True t have "\<exists>ds. json_digits u = Some (ds, rest) \<or> json_digits t = Some (ds, rest)"
      by (auto simp: json_exponent_def split: if_splits)
    then show ?thesis using Cons t by (auto dest!: json_digits_shorter)
  qed
qed

lemma json_unsigned_shorter: "json_unsigned s = Some (q, rest) \<Longrightarrow> length rest < length s"
  unfolding json_unsigned_def
  by (auto split: option.splits
           dest!: json_integer_shorter json_fraction_shorter json_exponent_shorter)

lemma json_number_shorter: "json_number s = Some (n, rest) \<Longrightarrow> length rest < length s"
  by (cases s) (auto simp: json_number_def split: if_splits dest!: json_unsigned_shorter)

text \<open>The token list of a text, or \<open>None\<close> where no token starts.\<close>

function json_lex :: "string \<Rightarrow> json_token list option" where
  "json_lex [] = Some []"
| "json_lex (c # cs) =
     (if is_json_space c then json_lex cs
      else if c = CHR ''{'' then map_option ((#) JT_LBRACE) (json_lex cs)
      else if c = CHR ''}'' then map_option ((#) JT_RBRACE) (json_lex cs)
      else if c = CHR ''['' then map_option ((#) JT_LBRACKET) (json_lex cs)
      else if c = CHR '']'' then map_option ((#) JT_RBRACKET) (json_lex cs)
      else if c = CHR '':'' then map_option ((#) JT_COLON) (json_lex cs)
      else if c = CHR '','' then map_option ((#) JT_COMMA) (json_lex cs)
      else if c = CHR 0x22 then
        (case json_string_chars cs [] of
           None \<Rightarrow> None
         | Some (u, rest) \<Rightarrow> map_option ((#) (JT_STRING u)) (json_lex rest))
      else if c = CHR ''-'' \<or> is_digit c then
        (case json_number (c # cs) of
           None \<Rightarrow> None
         | Some (n, rest) \<Rightarrow> map_option ((#) (JT_NUMBER n)) (json_lex rest))
      else if take 4 (c # cs) = ''true'' then map_option ((#) JT_TRUE) (json_lex (drop 3 cs))
      else if take 5 (c # cs) = ''false'' then map_option ((#) JT_FALSE) (json_lex (drop 4 cs))
      else if take 4 (c # cs) = ''null'' then map_option ((#) JT_NULL) (json_lex (drop 3 cs))
      else None)"
  by pat_completeness auto
termination
proof (relation "measure length", goal_cases)
  case (9 c cs x2 u rest)
  then show ?case using json_string_chars_shorter [of cs "[]" u rest] by simp
next
  case (10 c cs x2 n rest)
  then show ?case using json_number_shorter [of "c # cs" n rest] by simp
qed simp_all
text \<open>
  The grammar of JSON values over the tokens, as a machine with a stack of the arrays and
  objects that are open: \<open>json_step\<close> reads one token. A member whose key is
  already in the object replaces the value in place.
\<close>

datatype json_frame =
    InArray "json list"
  | InObject "(code_units \<times> json) list" "code_units option"

datatype json_mode =
    WantValue | WantValueOrClose | WantKeyOrClose | WantKey | WantColon | WantCommaOrClose
  | Done json

fun json_put :: "json \<Rightarrow> json_frame list \<Rightarrow> (json_mode \<times> json_frame list) option" where
  "json_put v [] = Some (Done v, [])"
| "json_put v (InArray xs # st) = Some (WantCommaOrClose, InArray (xs @ [v]) # st)"
| "json_put v (InObject ms (Some k) # st) = Some (WantCommaOrClose, InObject (obj_set ms k v) None # st)"
| "json_put v (InObject ms None # st) = None"

fun json_value_start :: "json_token \<Rightarrow> json_frame list \<Rightarrow> (json_mode \<times> json_frame list) option" where
  "json_value_start JT_LBRACKET st = Some (WantValueOrClose, InArray [] # st)"
| "json_value_start JT_LBRACE st = Some (WantKeyOrClose, InObject [] None # st)"
| "json_value_start (JT_STRING u) st = json_put (JString u) st"
| "json_value_start (JT_NUMBER n) st = json_put (JNumber n) st"
| "json_value_start JT_TRUE st = json_put (JBool True) st"
| "json_value_start JT_FALSE st = json_put (JBool False) st"
| "json_value_start JT_NULL st = json_put JNull st"
| "json_value_start _ st = None"

fun json_step :: "json_mode \<times> json_frame list \<Rightarrow> json_token \<Rightarrow> (json_mode \<times> json_frame list) option" where
  "json_step (WantValue, st) t = json_value_start t st"
| "json_step (WantValueOrClose, InArray xs # st) JT_RBRACKET = json_put (JArray xs) st"
| "json_step (WantValueOrClose, st) t = json_value_start t st"
| "json_step (WantKeyOrClose, InObject ms k # st) JT_RBRACE = json_put (JObject ms) st"
| "json_step (WantKeyOrClose, InObject ms k # st) (JT_STRING u) = Some (WantColon, InObject ms (Some u) # st)"
| "json_step (WantKey, InObject ms k # st) (JT_STRING u) = Some (WantColon, InObject ms (Some u) # st)"
| "json_step (WantColon, st) JT_COLON = Some (WantValue, st)"
| "json_step (WantCommaOrClose, InArray xs # st) JT_COMMA = Some (WantValue, InArray xs # st)"
| "json_step (WantCommaOrClose, InArray xs # st) JT_RBRACKET = json_put (JArray xs) st"
| "json_step (WantCommaOrClose, InObject ms k # st) JT_COMMA = Some (WantKey, InObject ms k # st)"
| "json_step (WantCommaOrClose, InObject ms k # st) JT_RBRACE = json_put (JObject ms) st"
| "json_step _ _ = None"

fun json_run :: "json_mode \<times> json_frame list \<Rightarrow> json_token list \<Rightarrow> json option" where
  "json_run (m, st) [] = (case m of Done v \<Rightarrow> Some v | _ \<Rightarrow> None)"
| "json_run s (t # ts) = (case json_step s t of None \<Rightarrow> None | Some s' \<Rightarrow> json_run s' ts)"

text \<open>\<^verbatim>\<open>JSON.parse(text)\<close>: the value of the text, or a SyntaxError.\<close>

datatype SyntaxError = SyntaxError

definition JSON_parse :: "string \<Rightarrow> SyntaxError + json" where
  "JSON_parse text =
     (case json_lex text of
        None \<Rightarrow> Inl SyntaxError
      | Some ts \<Rightarrow>
          (case json_run (WantValue, []) ts of
             None \<Rightarrow> Inl SyntaxError
           | Some v \<Rightarrow> Inr v))"


section \<open>The environment file parser: index.ts\<close>

text \<open>
  \<^verbatim>\<open>EnvValue\<close>: a string, a number, a boolean, or what \<^verbatim>\<open>JSON.parse\<close> returned for an
  \<^verbatim>\<open>ARRAY\<close> or \<^verbatim>\<open>OBJ\<close> declaration.
\<close>

datatype EnvValue = EString string | ENumber jsnumber | EBoolean bool | EJson json

text \<open>
  The errors of index.ts, by the message that builds them. \<open>Rethrown e\<close> is the error
  that the \<^verbatim>\<open>catch\<close> of \<^verbatim>\<open>typeImplication\<close> throws with \<open>e\<close> as its cause, and
  \<open>ErrorParsingLine n e\<close> is \<^verbatim>\<open>Error parsing line n: ...\<close> thrown for the error \<open>e\<close>.
\<close>

datatype env_error =
    InvalidOrMissingVariableName string
  | InvalidNumberValue string
  | InvalidBooleanValue string
  | ValueIsNotAnArray string
  | ValueIsNotAnObject string
  | InvalidVariableType string
  | JSONSyntaxError
  | Rethrown env_error
  | ErrorParsingLine nat env_error
  | EnvironmentFileNotFound string

text \<open>What is written to the console, in order.\<close>

datatype console_entry =
    SkippingInvalidLine nat string
  | DuplicateEnvironmentVariable string
  | ErrorReadingEnvironmentFile env_error
  | MissingEnvironmentVariables "string list"
  | ExtraEnvironmentVariables "string list"

text \<open>
  \<^verbatim>\<open>regex.test(s)\<close> for \<^verbatim>\<open>/^(\w+)\s+(\w+)\s*=\s*(.*)$/i\<close>. The classes \<^verbatim>\<open>\w\<close> and \<^verbatim>\<open>\s\<close>
  are disjoint and \<^verbatim>\<open>=\<close> is in neither, so a match takes each run whole: a word, white
  space, a word, optional white space, \<^verbatim>\<open>=\<close>, optional white space, and a rest in
  which \<^verbatim>\<open>.\<close> finds no line terminator.
\<close>

definition regex_test :: "string \<Rightarrow> bool" where
  "regex_test s =
     (let w1 = takeWhile is_word s; r1 = dropWhile is_word s;
          s1 = takeWhile is_space r1; r2 = dropWhile is_space r1;
          w2 = takeWhile is_word r2; r3 = dropWhile is_word r2;
          r4 = dropWhile is_space r3
      in w1 \<noteq> [] \<and> s1 \<noteq> [] \<and> w2 \<noteq> [] \<and>
         (case r4 of
            [] \<Rightarrow> False
          | c # r5 \<Rightarrow> c = CHR ''='' \<and> \<not> list_ex is_line_terminator (dropWhile is_space r5)))"

text \<open>\<^verbatim>\<open>variableNamingRegex.test(s)\<close> for \<^verbatim>\<open>/^[a-zA-Z_][a-zA-Z0-9_]*$/\<close>.\<close>

definition variableNamingRegex_test :: "string \<Rightarrow> bool" where
  "variableNamingRegex_test s =
     (case s of
        [] \<Rightarrow> False
      | c # cs \<Rightarrow> (is_alpha c \<or> c = CHR ''_'') \<and> list_all (\<lambda>d. is_alpha d \<or> is_digit d \<or> d = CHR ''_'') cs)"

definition findVarType :: "string \<Rightarrow> string" where
  "findVarType line = hd (split_on (CHR '' '') line)"

definition findKey :: "string list \<Rightarrow> env_error + string" where
  "findKey lineArray =
     (let rawKey = (case nth_opt lineArray 1 of
                      None \<Rightarrow> []
                    | Some p \<Rightarrow> trim (hd (split_on (CHR ''='') p)))
      in if \<not> variableNamingRegex_test rawKey then Inl (InvalidOrMissingVariableName rawKey)
         else Inr rawKey)"

text \<open>
  \<^verbatim>\<open>value.replace(/^"|"$/g, '')\<close>: a double quote at the start is removed, and a double
  quote at the end of what follows it.
\<close>

definition stripQuotationMarks :: "string \<Rightarrow> string" where
  "stripQuotationMarks v =
     (let v1 = (case v of [] \<Rightarrow> [] | c # cs \<Rightarrow> if c = CHR 0x22 then cs else v)
      in if v1 \<noteq> [] \<and> last v1 = CHR 0x22 then butlast v1 else v1)"

definition findValue :: "string \<Rightarrow> string" where
  "findValue line = trim (join_with (CHR ''='') (tl (split_on (CHR ''='') line)))"

text \<open>\<^verbatim>\<open>toLowerCase\<close> on code units below 256: A to Z, and the capital letters of Latin-1.\<close>

definition lower_char :: "char \<Rightarrow> char" where
  "lower_char c =
     (let n = (of_char c :: nat) in
      if (65 \<le> n \<and> n \<le> 90) \<or> (192 \<le> n \<and> n \<le> 222 \<and> n \<noteq> 215) then char_of (n + 32) else c)"

definition toLowerCase :: "string \<Rightarrow> string" where
  "toLowerCase s = map lower_char s"

text \<open>\<^verbatim>\<open>Array.isArray\<close> and \<^verbatim>\<open>typeof\<close> on what \<^verbatim>\<open>JSON.parse\<close> returns.\<close>

definition isArray :: "json \<Rightarrow> bool" where
  "isArray j = (case j of JArray xs \<Rightarrow> True | _ \<Rightarrow> False)"

definition typeof :: "json \<Rightarrow> string" where
  "typeof j =
     (case j of
        JNull \<Rightarrow> ''object''
      | JBool b \<Rightarrow> ''boolean''
      | JNumber n \<Rightarrow> ''number''
      | JString u \<Rightarrow> ''string''
      | JArray xs \<Rightarrow> ''object''
      | JObject ms \<Rightarrow> ''object'')"

text \<open>
  The \<^verbatim>\<open>switch\<close> of \<^verbatim>\<open>typeImplication\<close>, inside its \<^verbatim>\<open>try\<close>: the value, or the error
  thrown.
\<close>

definition typeImplication_try :: "string \<Rightarrow> string \<Rightarrow> env_error + EnvValue" where
  "typeImplication_try varType v =
     (if varType = ''NUMBER'' then
        (let numValue = Number v in
         if isNaN numValue then Inl (InvalidNumberValue v) else Inr (ENumber numValue))
      else if varType = ''STRING'' then Inr (EString (stripQuotationMarks v))
      else if varType = ''BOOL'' then
        (let lowerValue = toLowerCase v in
         if lowerValue \<notin> set [''true'', ''false''] then Inl (InvalidBooleanValue v)
         else Inr (EBoolean (lowerValue = ''true'')))
      else if varType = ''ARRAY'' then
        (case JSON_parse v of
           Inl e \<Rightarrow> Inl JSONSyntaxError
         | Inr returnValue \<Rightarrow>
             if \<not> isArray returnValue then Inl (ValueIsNotAnArray v)
             else Inr (EJson returnValue))
      else if varType = ''OBJ'' then
        (case JSON_parse v of
           Inl e \<Rightarrow> Inl JSONSyntaxError
         | Inr returnValue \<Rightarrow>
             if isArray returnValue \<or> typeof returnValue \<noteq> ''object'' \<or> returnValue = JNull
             then Inl (ValueIsNotAnObject v)
             else Inr (EJson returnValue))
      else Inl (InvalidVariableType varType))"

text \<open>\<^verbatim>\<open>typeImplication\<close>: the \<^verbatim>\<open>catch\<close> wraps whatever was thrown.\<close>

definition typeImplication :: "string \<Rightarrow> string \<Rightarrow> env_error + EnvValue" where
  "typeImplication varType v =
     (case typeImplication_try varType v of
        Inl error \<Rightarrow> Inl (Rethrown error)
      | Inr returnValue \<Rightarrow> Inr returnValue)"

record ParsedEnvVar =
  var_key :: string
  var_type :: string
  var_value :: EnvValue

text \<open>\<^verbatim>\<open>xs.findIndex(p)\<close>: the index of the first element that satisfies \<open>p\<close>, or -1.\<close>

fun findIndex :: "('a \<Rightarrow> bool) \<Rightarrow> 'a list \<Rightarrow> int" where
  "findIndex p [] = - 1"
| "findIndex p (x # xs) =
     (if p x then 0 else (let i = findIndex p xs in if i < 0 then - 1 else i + 1))"

text \<open>
  The callback of \<^verbatim>\<open>lines.forEach\<close> in \<^verbatim>\<open>parseEnvFile\<close>, for the line of index
  \<open>lineNumber\<close>: it takes the array \<^verbatim>\<open>envVars\<close> and the console, and returns them
  changed, or the error it throws.
\<close>

definition parseEnvLine ::
  "nat \<Rightarrow> string \<Rightarrow> ParsedEnvVar list \<Rightarrow> console_entry list \<Rightarrow>
   (env_error + ParsedEnvVar list) \<times> console_entry list" where
  "parseEnvLine lineNumber line envVars console =
     (let trimmedLine = trim line in
      if trimmedLine = [] \<or> hd trimmedLine = CHR ''#'' then (Inr envVars, console)
      else if \<not> regex_test trimmedLine then
        (Inr envVars, console @ [SkippingInvalidLine (lineNumber + 1) line])
      else
        (let lineArray = split_on (CHR '' '') trimmedLine;
             varType = findVarType trimmedLine
         in case findKey lineArray of
              Inl error \<Rightarrow> (Inl (ErrorParsingLine (lineNumber + 1) error), console)
            | Inr key \<Rightarrow>
                (let rawValue = findValue trimmedLine in
                 case typeImplication varType rawValue of
                   Inl error \<Rightarrow> (Inl (ErrorParsingLine (lineNumber + 1) error), console)
                 | Inr v \<Rightarrow>
                     if list_ex (\<lambda>x. var_key x = key) envVars then
                       (Inr (envVars [nat (findIndex (\<lambda>x. var_key x = key) envVars) :=
                                        \<lparr> var_key = key, var_type = varType, var_value = v \<rparr>]),
                        console @ [DuplicateEnvironmentVariable key])
                     else
                       (Inr (envVars @ [\<lparr> var_key = key, var_type = varType, var_value = v \<rparr>]),
                        console))))"

text \<open>\<^verbatim>\<open>lines.forEach\<close>: the lines in order, until one throws.\<close>

fun forEach_line ::
  "nat \<Rightarrow> string list \<Rightarrow> ParsedEnvVar list \<Rightarrow> console_entry list \<Rightarrow>
   (env_error + ParsedEnvVar list) \<times> console_entry list" where
  "forEach_line lineNumber [] envVars console = (Inr envVars, console)"
| "forEach_line lineNumber (line # lines) envVars console =
     (case parseEnvLine lineNumber line envVars console of
        (Inl error, console') \<Rightarrow> (Inl error, console')
      | (Inr envVars', console') \<Rightarrow> forEach_line (lineNumber + 1) lines envVars' console')"

text \<open>
  \<^verbatim>\<open>parseEnvFile\<close>. The file system is a map from paths to the text of the files that
  exist.
\<close>

definition parseEnvFile ::
  "(string \<rightharpoonup> string) \<Rightarrow> string \<Rightarrow> console_entry list \<Rightarrow>
   (env_error + ParsedEnvVar list) \<times> console_entry list" where
  "parseEnvFile fs envPath console =
     (case fs envPath of
        None \<Rightarrow> (Inl (EnvironmentFileNotFound envPath), console)
      | Some file \<Rightarrow> forEach_line 0 (split_on (CHR 0x0A) file) [] console)"

text \<open>
  \<^verbatim>\<open>config\<close>. The environment object is built by \<^verbatim>\<open>acc[key] = value\<close> from the empty
  object: its own properties, in the order of their first assignment. The key
  \<^verbatim>\<open>__proto__\<close> is an accessor of \<^verbatim>\<open>Object.prototype\<close>: assigning to it adds no own
  property (what it does to the prototype is not part of this model).
\<close>

record config_options =
  opt_path :: "string option"
  opt_strict :: "bool option"

definition assign_property :: "(string \<times> 'v) list \<Rightarrow> string \<Rightarrow> 'v \<Rightarrow> (string \<times> 'v) list" where
  "assign_property acc k v = (if k = ''__proto__'' then acc else obj_set acc k v)"

definition config ::
  "(string \<rightharpoonup> string) \<Rightarrow> config_options \<Rightarrow> console_entry list \<Rightarrow>
   (env_error + (string \<times> EnvValue) list) \<times> console_entry list" where
  "config fs options console =
     (let envPath = (case opt_path options of
                       None \<Rightarrow> ''.env''
                     | Some p \<Rightarrow> if p = [] then ''.env'' else p);
          strict = (case opt_strict options of None \<Rightarrow> False | Some b \<Rightarrow> b)
      in case parseEnvFile fs envPath console of
           (Inr envVars, console') \<Rightarrow>
             (Inr (foldl (\<lambda>acc x. assign_property acc (var_key x) (var_value x)) [] envVars),
              console')
         | (Inl error, console') \<Rightarrow>
             if strict then (Inl error, console')
             else (Inr [], console' @ [ErrorReadingEnvironmentFile error]))"


section \<open>\<^verbatim>\<open>validateEnv\<close> of index.ts\<close>

text \<open>
  An object as \<^verbatim>\<open>validateEnv\<close> sees it: its own enumerable properties, which
  \<^verbatim>\<open>Object.keys\<close> lists, and the names of the properties it inherits through its
  prototype chain, which the operator \<^verbatim>\<open>in\<close> finds as well. An object written as a
  literal, or built by \<^verbatim>\<open>config\<close> or \<^verbatim>\<open>JSON.parse\<close>, inherits from
  \<^verbatim>\<open>Object.prototype\<close>.
\<close>

record 'v js_object =
  own :: "(string \<times> 'v) list"
  inherited :: "string list"

definition Object_prototype_names :: "string list" where
  "Object_prototype_names =
     [''constructor'', ''__defineGetter__'', ''__defineSetter__'', ''hasOwnProperty'',
      ''__lookupGetter__'', ''__lookupSetter__'', ''isPrototypeOf'', ''propertyIsEnumerable'',
      ''toString'', ''valueOf'', ''__proto__'', ''toLocaleString'']"

definition object_literal :: "(string \<times> 'v) list \<Rightarrow> 'v js_object" where
  "object_literal props = \<lparr> own = props, inherited = Object_prototype_names \<rparr>"

definition Object_keys :: "'v js_object \<Rightarrow> string list" where
  "Object_keys obj = map fst (own obj)"

text \<open>\<^verbatim>\<open>key in obj\<close>.\<close>

definition has_property :: "string \<Rightarrow> 'v js_object \<Rightarrow> bool" where
  "has_property k obj = (k \<in> set (map fst (own obj)) \<or> k \<in> set (inherited obj))"

definition validateEnv ::
  "EnvValue js_object \<Rightarrow> string js_object \<Rightarrow> console_entry list \<Rightarrow> bool \<times> console_entry list" where
  "validateEnv env schema console =
     (let schemaKeys = Object_keys schema;
          envKeys = Object_keys env;
          missingKeys = filter (\<lambda>k. \<not> has_property k env) schemaKeys
      in if length missingKeys > 0 then
           (False, console @ [MissingEnvironmentVariables missingKeys])
         else
           (let extraKeys = filter (\<lambda>k. \<not> has_property k schema) envKeys;
                console' = (if length extraKeys > 0
                            then console @ [ExtraEnvironmentVariables extraKeys] else console)
            in (length missingKeys = 0, console')))"


section \<open>Properties of the type coercion\<close>

subsection \<open>\<^verbatim>\<open>Number\<close> on decimal numerals\<close>

lemma negate_Number_value: "negate (Number_value q) = Number_value (- q)"
  by (auto simp: negate_def Number_value_def overflow_bound_def)

lemma is_digit_not_special:
  assumes "is_digit c"
  shows "\<not> is_space c" "c \<noteq> CHR ''.''" "c \<noteq> CHR ''+''" "c \<noteq> CHR ''-''" "c \<noteq> CHR ''I''"
    "c \<noteq> CHR ''x''" "c \<noteq> CHR ''X''" "c \<noteq> CHR ''o''" "c \<noteq> CHR ''O''" "c \<noteq> CHR ''b''" "c \<noteq> CHR ''B''"
    "c \<noteq> CHR ''e''" "c \<noteq> CHR ''E''"
  using assms by (auto simp: is_digit_def is_space_def)

lemma trim_id:
  assumes "s \<noteq> []" "\<not> is_space (hd s)" "\<not> is_space (last s)"
  shows "trim s = s"
proof -
  from assms have a: "dropWhile is_space s = s" by (cases s) auto
  from assms have "rev s \<noteq> []" "\<not> is_space (hd (rev s))" by (auto simp: hd_rev)
  then have "dropWhile is_space (rev s) = rev s" by (cases "rev s") auto
  with a show ?thesis by (simp add: trim_def)
qed

lemma takeWhile_digits_dot:
  assumes "list_all is_digit ip"
  shows "takeWhile is_digit (ip @ CHR ''.'' # fp) = ip"
    and "dropWhile is_digit (ip @ CHR ''.'' # fp) = CHR ''.'' # fp"
    and "takeWhile is_digit ip = ip" and "dropWhile is_digit ip = []"
  using assms by (auto simp: list_all_iff takeWhile_tail dropWhile_append3 is_digit_def)

text \<open>
  The text of a fraction part: nothing when there are no fraction digits, a point and
  the digits otherwise.
\<close>

definition decimal_tail :: "string \<Rightarrow> string" where
  "decimal_tail fp = (if fp = [] then [] else CHR ''.'' # fp)"

lemma StrUnsignedDecimalLiteral_decimal:
  assumes ip: "ip \<noteq> []" "list_all is_digit ip" and fp: "list_all is_digit fp"
  shows "StrUnsignedDecimalLiteral (ip @ decimal_tail fp) =
         Number_value (of_nat (radix_value 10 ip) + of_nat (radix_value 10 fp) / 10 ^ length fp)"
proof -
  from ip obtain d ds where ipc: "ip = d # ds" and d: "is_digit d" by (cases ip) auto
  have ninf: "ip @ decimal_tail fp \<noteq> ''Infinity''"
    using ipc is_digit_not_special(5) [OF d] by auto
  note tw1 = takeWhile_digits_dot(1,2) [OF ip(2), of fp]
  note tw2 = takeWhile_digits_dot(3,4) [OF ip(2)]
  note tw3 = takeWhile_digits_dot(3,4) [OF fp]
  show ?thesis
  proof (cases "fp = []")
    case True
    show ?thesis
      using ninf ip(1) unfolding True
      by (simp add: StrUnsignedDecimalLiteral_def decimal_tail_def Let_def exponent_part_def
            pow10_def radix_value_def tw2)
  next
    case False
    show ?thesis
      using ninf ip(1) False
      by (simp add: StrUnsignedDecimalLiteral_def decimal_tail_def Let_def exponent_part_def
            pow10_def tw1 tw3)
  qed
qed

lemma NonDecimal_None:
  assumes "s = [] \<or> hd s \<noteq> CHR ''0'' \<or> tl s = [] \<or> is_digit (hd (tl s)) \<or> hd (tl s) = CHR ''.''"
  shows "NonDecimalIntegerLiteral s = None"
proof (cases s)
  case Nil
  then show ?thesis by (simp add: NonDecimalIntegerLiteral_def)
next
  case (Cons z t)
  show ?thesis
  proof (cases t)
    case Nil
    with Cons show ?thesis by (simp add: NonDecimalIntegerLiteral_def)
  next
    case (Cons x ds)
    with \<open>s = z # t\<close> assms have "z \<noteq> CHR ''0'' \<or> is_digit x \<or> x = CHR ''.''" by auto
    then have "\<not> (z = CHR ''0'' \<and> (x = CHR ''x'' \<or> x = CHR ''X'' \<or> x = CHR ''o'' \<or> x = CHR ''O'' \<or>
                              x = CHR ''b'' \<or> x = CHR ''B''))"
      using is_digit_not_special(6-11) [of x] by auto
    with Cons \<open>s = z # t\<close> show ?thesis
      by (simp add: NonDecimalIntegerLiteral_def)
  qed
qed

lemma last_decimal:
  assumes "ip \<noteq> []" "list_all is_digit ip" "list_all is_digit fp"
  shows "is_digit (last (ip @ decimal_tail fp))"
  using assms by (cases "fp = []") (auto simp: decimal_tail_def list_all_iff)

lemma Number_decimal:
  assumes ip: "ip \<noteq> []" "list_all is_digit ip" and fp: "list_all is_digit fp"
  shows "Number (ip @ decimal_tail fp) =
         Number_value (of_nat (radix_value 10 ip) + of_nat (radix_value 10 fp) / 10 ^ length fp)"
proof -
  let ?v = "ip @ decimal_tail fp"
  from ip obtain d ds where ipc: "ip = d # ds" and d: "is_digit d" by (cases ip) auto
  have ne: "?v \<noteq> []" using ip by simp
  have hd: "hd ?v = d" using ipc by simp
  have t: "trim ?v = ?v"
    using ne hd is_digit_not_special(1) [OF d] is_digit_not_special(1) [OF last_decimal [OF ip fp]]
    by (intro trim_id) auto
  have "tl ?v = [] \<or> is_digit (hd (tl ?v)) \<or> hd (tl ?v) = CHR ''.''"
  proof (cases ds)
    case Nil
    then show ?thesis using ipc by (auto simp: decimal_tail_def)
  next
    case (Cons a list)
    then show ?thesis using ipc ip(2) by auto
  qed
  then have nd: "NonDecimalIntegerLiteral ?v = None" by (intro NonDecimal_None) auto
  have sd: "StrDecimalLiteral ?v = StrUnsignedDecimalLiteral ?v"
    using ipc is_digit_not_special(3,4) [OF d] by (simp add: StrDecimalLiteral_def)
  show ?thesis
    using ip(1) by (simp add: Number_def Let_def t nd sd StrUnsignedDecimalLiteral_decimal [OF ip fp])
qed

lemma Number_negative_decimal:
  assumes ip: "ip \<noteq> []" "list_all is_digit ip" and fp: "list_all is_digit fp"
  shows "Number (CHR ''-'' # ip @ decimal_tail fp) =
         Number_value (- (of_nat (radix_value 10 ip) + of_nat (radix_value 10 fp) / 10 ^ length fp))"
proof -
  let ?v = "CHR ''-'' # ip @ decimal_tail fp"
  have l: "last ?v = last (ip @ decimal_tail fp)" using ip by simp
  have t: "trim ?v = ?v"
    using is_digit_not_special(1) [OF last_decimal [OF ip fp]] l
    by (intro trim_id) (auto simp: is_space_def)
  have nd: "NonDecimalIntegerLiteral ?v = None" by (intro NonDecimal_None) auto
  have sd: "StrDecimalLiteral ?v = negate (StrUnsignedDecimalLiteral (ip @ decimal_tail fp))"
    by (simp add: StrDecimalLiteral_def)
  show ?thesis
    by (simp add: Number_def Let_def negate_Number_value t nd sd
          StrUnsignedDecimalLiteral_decimal [OF ip fp])
qed


lemma Number_value_not_NaN: "Number_value q \<noteq> NaN"
  by (simp add: Number_value_def)

lemma typeImplication_NUMBER:
  "typeImplication ''NUMBER'' v =
     (if Number v = NaN then Inl (Rethrown (InvalidNumberValue v)) else Inr (ENumber (Number v)))"
  by (simp add: typeImplication_def typeImplication_try_def isNaN_def Let_def)

lemma radix_value_snoc: "radix_value b (ds @ [d]) = b * radix_value b ds + digit_value d"
  by (simp add: radix_value_def)


subsection \<open>The declared type \<^verbatim>\<open>NUMBER\<close>\<close>

text \<open>
  Claim C3, as stated, fails: the text \<^verbatim>\<open>Infinity\<close> does not parse to a finite
  number, and it is returned as the value, not rejected. The guard of the source is
  \<^verbatim>\<open>isNaN\<close>.
\<close>

theorem typeImplication_NUMBER_Infinity_counterexample:
  "\<not> isFinite (Number ''Infinity'') \<and>
   typeImplication ''NUMBER'' ''Infinity'' = Inr (ENumber PosInfinity)"
  by code_simp

text \<open>
  Claim C3, amended. Under \<^verbatim>\<open>NUMBER\<close>, digits with an optional fraction and an
  optional minus sign give the Number of the decimal value they denote;
  \<open>typeImplication\<close> fails, with an invalid number value error, exactly when
  \<^verbatim>\<open>Number\<close> of the text is NaN, and returns \<^verbatim>\<open>Number\<close> of the text otherwise, an
  infinity included.
\<close>

theorem typeImplication_NUMBER_values:
  "(ip \<noteq> [] \<and> list_all is_digit ip \<and> list_all is_digit fp \<longrightarrow>
      typeImplication ''NUMBER'' (ip @ decimal_tail fp) =
        Inr (ENumber (Number_value
          (of_nat (radix_value 10 ip) + of_nat (radix_value 10 fp) / 10 ^ length fp))) \<and>
      typeImplication ''NUMBER'' (CHR ''-'' # ip @ decimal_tail fp) =
        Inr (ENumber (Number_value
          (- (of_nat (radix_value 10 ip) + of_nat (radix_value 10 fp) / 10 ^ length fp))))) \<and>
   typeImplication ''NUMBER'' v =
     (if Number v = NaN then Inl (Rethrown (InvalidNumberValue v))
      else Inr (ENumber (Number v))) \<and>
   typeImplication ''NUMBER'' ''42'' = Inr (ENumber (Num 42)) \<and>
   typeImplication ''NUMBER'' ''-10'' = Inr (ENumber (Num (- 10))) \<and>
   typeImplication ''NUMBER'' ''3.14'' = Inr (ENumber (Num (314 / 100))) \<and>
   typeImplication ''NUMBER'' ''not_a_number'' = Inl (Rethrown (InvalidNumberValue ''not_a_number'')) \<and>
   typeImplication ''NUMBER'' ''-Infinity'' = Inr (ENumber NegInfinity)"
proof -
  have a: "ip \<noteq> [] \<and> list_all is_digit ip \<and> list_all is_digit fp \<longrightarrow>
      typeImplication ''NUMBER'' (ip @ decimal_tail fp) =
        Inr (ENumber (Number_value
          (of_nat (radix_value 10 ip) + of_nat (radix_value 10 fp) / 10 ^ length fp))) \<and>
      typeImplication ''NUMBER'' (CHR ''-'' # ip @ decimal_tail fp) =
        Inr (ENumber (Number_value
          (- (of_nat (radix_value 10 ip) + of_nat (radix_value 10 fp) / 10 ^ length fp))))"
    by (simp add: typeImplication_NUMBER Number_decimal Number_negative_decimal
          Number_value_not_NaN)
  have e1: "typeImplication ''NUMBER'' ''42'' = Inr (ENumber (Num 42))" by code_simp
  have e2: "typeImplication ''NUMBER'' ''-10'' = Inr (ENumber (Num (- 10)))" by code_simp
  have e3: "typeImplication ''NUMBER'' ''3.14'' = Inr (ENumber (Num (314 / 100)))" by code_simp
  have e4: "typeImplication ''NUMBER'' ''not_a_number'' =
              Inl (Rethrown (InvalidNumberValue ''not_a_number''))" by code_simp
  have e5: "typeImplication ''NUMBER'' ''-Infinity'' = Inr (ENumber NegInfinity)" by code_simp
  from a typeImplication_NUMBER [of v] e1 e2 e3 e4 e5 show ?thesis by blast
qed

theorem typeImplication_NUMBER_values_witness:
  "''3'' \<noteq> [] \<and> list_all is_digit ''3'' \<and> list_all is_digit ''14'' \<and>
   typeImplication ''NUMBER'' ''3.14'' = Inr (ENumber (Num (157 / 50))) \<and>
   typeImplication ''NUMBER'' ''-3.14'' = Inr (ENumber (Num (- (157 / 50))))"
proof -
  have h: "''3'' \<noteq> [] \<and> list_all is_digit ''3'' \<and> list_all is_digit ''14''"
    by (simp add: is_digit_def)
  have t: "''3'' @ decimal_tail ''14'' = ''3.14''" by (simp add: decimal_tail_def)
  have q: "(of_nat (radix_value 10 ''3'') + of_nat (radix_value 10 ''14'') / 10 ^ length ''14'' :: rat)
             = 157 / 50"
    by (simp add: radix_value_def digit_value_def is_digit_def)
  have n: "Number_value (157 / 50) = Num (157 / 50)" "Number_value (- (157 / 50)) = Num (- (157 / 50))"
    by (simp_all add: Number_value_def overflow_bound_def)
  from typeImplication_NUMBER_values [of "''3''" "''14''" "[]"] h
  have "typeImplication ''NUMBER'' (''3'' @ decimal_tail ''14'') =
        Inr (ENumber (Number_value
          (of_nat (radix_value 10 ''3'') + of_nat (radix_value 10 ''14'') / 10 ^ length ''14''))) \<and>
      typeImplication ''NUMBER'' (CHR ''-'' # ''3'' @ decimal_tail ''14'') =
        Inr (ENumber (Number_value
          (- (of_nat (radix_value 10 ''3'') + of_nat (radix_value 10 ''14'') / 10 ^ length ''14''))))"
    by blast
  then show ?thesis using h unfolding t q n by simp
qed


subsection \<open>The declared type \<^verbatim>\<open>STRING\<close>\<close>

lemma typeImplication_STRING:
  "typeImplication ''STRING'' v = Inr (EString (stripQuotationMarks v))"
  by (simp add: typeImplication_def typeImplication_try_def)

lemma stripQuotationMarks_quoted:
  "stripQuotationMarks (CHR 0x22 # m @ [CHR 0x22]) = m"
  by (simp add: stripQuotationMarks_def)

lemma stripQuotationMarks_unquoted:
  assumes "v = [] \<or> (hd v \<noteq> CHR 0x22 \<and> last v \<noteq> CHR 0x22)"
  shows "stripQuotationMarks v = v"
  using assms by (cases v) (auto simp: stripQuotationMarks_def)

text \<open>
  Claim C7. Under \<^verbatim>\<open>STRING\<close>, a text between two double quotes loses exactly these two
  quotes, whatever it holds (quotes and backslashes inside stay); a text with no
  double quote at either end is the value as it stands, white space inside included;
  in every case the value is \<open>stripQuotationMarks\<close> of the text and there is no
  error. The line \<^verbatim>\<open>STRING UNQUOTED=Hello World\<close> gives \<^verbatim>\<open>Hello World\<close>.
\<close>

theorem typeImplication_STRING_quotes:
  "typeImplication ''STRING'' (CHR 0x22 # m @ [CHR 0x22]) = Inr (EString m) \<and>
   (v = [] \<or> (hd v \<noteq> CHR 0x22 \<and> last v \<noteq> CHR 0x22) \<longrightarrow>
      typeImplication ''STRING'' v = Inr (EString v)) \<and>
   typeImplication ''STRING'' v = Inr (EString (stripQuotationMarks v)) \<and>
   parseEnvFile [''.env'' \<mapsto> ''STRING UNQUOTED=Hello World''] ''.env'' [] =
     (Inr [\<lparr> var_key = ''UNQUOTED'', var_type = ''STRING'',
             var_value = EString ''Hello World'' \<rparr>], [])"
proof -
  have ex: "parseEnvFile [''.env'' \<mapsto> ''STRING UNQUOTED=Hello World''] ''.env'' [] =
     (Inr [\<lparr> var_key = ''UNQUOTED'', var_type = ''STRING'',
             var_value = EString ''Hello World'' \<rparr>], [])"
    by code_simp
  show ?thesis
    using ex stripQuotationMarks_unquoted [of v]
    by (simp add: typeImplication_STRING stripQuotationMarks_quoted)
qed

theorem typeImplication_STRING_quotes_witness:
  "hd ''Hello World'' \<noteq> CHR 0x22 \<and> last ''Hello World'' \<noteq> CHR 0x22 \<and>
   typeImplication ''STRING'' ''Hello World'' = Inr (EString ''Hello World'') \<and>
   typeImplication ''STRING'' ''\"a \"b\" c\"'' = Inr (EString ''a \"b\" c'')"
  using typeImplication_STRING_quotes [of "''a \"b\" c''" "''Hello World''"]
  by simp


subsection \<open>The declared types \<^verbatim>\<open>ARRAY\<close> and \<^verbatim>\<open>OBJ\<close>\<close>

text \<open>
  Claim C8. Under \<^verbatim>\<open>ARRAY\<close> the text goes through \<^verbatim>\<open>JSON.parse\<close> and the coercion
  succeeds only for an array; under \<^verbatim>\<open>OBJ\<close> it succeeds only for an object, so an
  array, a string, a number, a boolean and \<^verbatim>\<open>null\<close> fail. The lines
  \<^verbatim>\<open>OBJ X=[1,2,3]\<close> and \<^verbatim>\<open>ARRAY Y={"k":1}\<close> abort the parse.
\<close>

theorem typeImplication_ARRAY_OBJ:
  "typeImplication ''ARRAY'' v =
     (case JSON_parse v of
        Inl e \<Rightarrow> Inl (Rethrown JSONSyntaxError)
      | Inr j \<Rightarrow> (case j of JArray xs \<Rightarrow> Inr (EJson j)
                           | _ \<Rightarrow> Inl (Rethrown (ValueIsNotAnArray v)))) \<and>
   typeImplication ''OBJ'' v =
     (case JSON_parse v of
        Inl e \<Rightarrow> Inl (Rethrown JSONSyntaxError)
      | Inr j \<Rightarrow> (case j of JObject ms \<Rightarrow> Inr (EJson j)
                           | _ \<Rightarrow> Inl (Rethrown (ValueIsNotAnObject v)))) \<and>
   JSON_parse ''[1,2,3]'' = Inr (JArray [JNumber (Num 1), JNumber (Num 2), JNumber (Num 3)]) \<and>
   JSON_parse ''{\"k\":1}'' = Inr (JObject [([107], JNumber (Num 1))]) \<and>
   JSON_parse ''null'' = Inr JNull \<and>
   typeImplication ''OBJ'' ''null'' = Inl (Rethrown (ValueIsNotAnObject ''null'')) \<and>
   parseEnvFile [''.env'' \<mapsto> ''OBJ X=[1,2,3]''] ''.env'' [] =
     (Inl (ErrorParsingLine 1 (Rethrown (ValueIsNotAnObject ''[1,2,3]''))), []) \<and>
   parseEnvFile [''.env'' \<mapsto> ''ARRAY Y={\"k\":1}''] ''.env'' [] =
     (Inl (ErrorParsingLine 1 (Rethrown (ValueIsNotAnArray ''{\"k\":1}''))), [])"
proof -
  have a: "typeImplication ''ARRAY'' v =
     (case JSON_parse v of
        Inl e \<Rightarrow> Inl (Rethrown JSONSyntaxError)
      | Inr j \<Rightarrow> (case j of JArray xs \<Rightarrow> Inr (EJson j)
                           | _ \<Rightarrow> Inl (Rethrown (ValueIsNotAnArray v))))"
    by (simp add: typeImplication_def typeImplication_try_def isArray_def
           split: sum.splits json.splits)
  have b: "typeImplication ''OBJ'' v =
     (case JSON_parse v of
        Inl e \<Rightarrow> Inl (Rethrown JSONSyntaxError)
      | Inr j \<Rightarrow> (case j of JObject ms \<Rightarrow> Inr (EJson j)
                           | _ \<Rightarrow> Inl (Rethrown (ValueIsNotAnObject v))))"
    by (simp add: typeImplication_def typeImplication_try_def isArray_def typeof_def
           split: sum.splits json.splits)
  have c: "JSON_parse ''[1,2,3]'' = Inr (JArray [JNumber (Num 1), JNumber (Num 2), JNumber (Num 3)])"
    by code_simp
  have d: "JSON_parse ''{\"k\":1}'' = Inr (JObject [([107], JNumber (Num 1))])" by code_simp
  have e: "JSON_parse ''null'' = Inr JNull" by code_simp
  have f: "typeImplication ''OBJ'' ''null'' = Inl (Rethrown (ValueIsNotAnObject ''null''))"
    by code_simp
  have g: "parseEnvFile [''.env'' \<mapsto> ''OBJ X=[1,2,3]''] ''.env'' [] =
     (Inl (ErrorParsingLine 1 (Rethrown (ValueIsNotAnObject ''[1,2,3]''))), [])"
    by code_simp
  have h: "parseEnvFile [''.env'' \<mapsto> ''ARRAY Y={\"k\":1}''] ''.env'' [] =
     (Inl (ErrorParsingLine 1 (Rethrown (ValueIsNotAnArray ''{\"k\":1}''))), [])"
    by code_simp
  from a b c d e f g h show ?thesis by blast
qed


section \<open>Properties of \<^verbatim>\<open>validateEnv\<close>\<close>

lemma validateEnv_result:
  "fst (validateEnv env schema console) = list_all (\<lambda>k. has_property k env) (Object_keys schema)"
  by (auto simp: validateEnv_def Let_def list_all_iff filter_empty_conv)

text \<open>
  Claim C10. \<open>validateEnv\<close> returns true exactly when the operator \<^verbatim>\<open>in\<close> finds
  every key of the schema in the environment, and the values of the environment play no
  part. The operator also finds inherited properties: for the empty environment and
  the schema \<^verbatim>\<open>{toString: 'STRING'}\<close> the result is true with nothing logged, although
  \<^verbatim>\<open>toString\<close> is not a key of the environment.
\<close>

theorem validateEnv_inherited_key:
  "validateEnv (object_literal []) (object_literal [(''toString'', ''STRING'')]) [] = (True, []) \<and>
   ''toString'' \<notin> set (Object_keys (object_literal ([] :: (string \<times> EnvValue) list))) \<and>
   fst (validateEnv env schema console) =
     list_all (\<lambda>k. has_property k env) (Object_keys schema) \<and>
   fst (validateEnv (env\<lparr> own := map (\<lambda>(k, x). (k, f k x)) (own env) \<rparr>) schema console) =
     fst (validateEnv env schema console)"
proof -
  have a: "validateEnv (object_literal []) (object_literal [(''toString'', ''STRING'')]) [] = (True, [])"
    by code_simp
  have b: "''toString'' \<notin> set (Object_keys (object_literal ([] :: (string \<times> EnvValue) list)))"
    by (simp add: Object_keys_def object_literal_def)
  have k: "has_property k' (env\<lparr> own := map (\<lambda>(k, x). (k, f k x)) (own env) \<rparr>) =
           has_property k' env" for k'
    by (simp add: has_property_def comp_def case_prod_beta)
  have c: "fst (validateEnv (env\<lparr> own := map (\<lambda>(k, x). (k, f k x)) (own env) \<rparr>) schema console) =
     fst (validateEnv env schema console)"
    unfolding validateEnv_result by (simp add: k)
  from a b c validateEnv_result [of env schema console] show ?thesis by blast
qed


section \<open>Properties of \<^verbatim>\<open>parseEnvFile\<close>\<close>

subsection \<open>The regular expression and the split of a line\<close>

lemma word_not_space: "is_word c \<Longrightarrow> \<not> is_space c"
  by (auto simp: is_word_def is_alpha_def is_digit_def is_space_def)

lemma eq_not_word_space: "\<not> is_word (CHR ''='')" "\<not> is_space (CHR ''='')"
  by (auto simp: is_word_def is_alpha_def is_digit_def is_space_def)

lemma span_run:
  assumes "list_all P xs" "ys = [] \<or> \<not> P (hd ys)"
  shows "takeWhile P (xs @ ys) = xs" "dropWhile P (xs @ ys) = ys"
proof -
  from assms(2) have t: "takeWhile P ys = []" and d: "dropWhile P ys = ys"
    by (cases ys; auto)+
  from assms(1) have a: "\<forall>x\<in>set xs. P x" by (simp add: list_all_iff)
  show "takeWhile P (xs @ ys) = xs" using a t by (simp add: takeWhile_append2)
  show "dropWhile P (xs @ ys) = ys" using a d by (simp add: dropWhile_append2)
qed

text \<open>
  What the regular expression accepts, as a decomposition of the text: a word, white
  space, a word, optional white space, \<^verbatim>\<open>=\<close>, optional white space, and a rest
  without a line terminator.
\<close>

definition regex_matches :: "string \<Rightarrow> bool" where
  "regex_matches s =
     (\<exists>w1 s1 w2 s2 s3 rest.
        s = w1 @ s1 @ w2 @ s2 @ CHR ''='' # s3 @ rest \<and>
        w1 \<noteq> [] \<and> list_all is_word w1 \<and>
        s1 \<noteq> [] \<and> list_all is_space s1 \<and>
        w2 \<noteq> [] \<and> list_all is_word w2 \<and>
        list_all is_space s2 \<and> list_all is_space s3 \<and>
        \<not> list_ex is_line_terminator rest)"

lemma regex_test_if_matches:
  assumes "regex_matches s"
  shows "regex_test s"
proof -
  from assms obtain w1 s1 w2 s2 s3 rest where
    s: "s = w1 @ s1 @ w2 @ s2 @ CHR ''='' # s3 @ rest"
    and w1: "w1 \<noteq> []" "list_all is_word w1"
    and s1: "s1 \<noteq> []" "list_all is_space s1"
    and w2: "w2 \<noteq> []" "list_all is_word w2"
    and s2: "list_all is_space s2" and s3: "list_all is_space s3"
    and rest: "\<not> list_ex is_line_terminator rest"
    unfolding regex_matches_def by blast
  have h1: "\<not> is_word (hd (s1 @ w2 @ s2 @ CHR ''='' # s3 @ rest))"
    using s1 by (cases s1) (auto dest: word_not_space)
  have h2: "\<not> is_space (hd (w2 @ s2 @ CHR ''='' # s3 @ rest))"
    using w2 by (cases w2) (auto dest: word_not_space)
  have h3: "\<not> is_word (hd (s2 @ CHR ''='' # s3 @ rest))"
    using s2 eq_not_word_space by (cases s2) (auto dest: word_not_space)
  have h4: "\<not> is_space (hd (CHR ''='' # s3 @ rest))"
    using eq_not_word_space by simp
  have a: "takeWhile is_word s = w1" "dropWhile is_word s = s1 @ w2 @ s2 @ CHR ''='' # s3 @ rest"
    unfolding s using span_run [OF w1(2), of "s1 @ w2 @ s2 @ CHR ''='' # s3 @ rest"] h1 by auto
  have b: "takeWhile is_space (s1 @ w2 @ s2 @ CHR ''='' # s3 @ rest) = s1"
          "dropWhile is_space (s1 @ w2 @ s2 @ CHR ''='' # s3 @ rest) = w2 @ s2 @ CHR ''='' # s3 @ rest"
    using span_run [OF s1(2), of "w2 @ s2 @ CHR ''='' # s3 @ rest"] h2 by auto
  have c: "takeWhile is_word (w2 @ s2 @ CHR ''='' # s3 @ rest) = w2"
          "dropWhile is_word (w2 @ s2 @ CHR ''='' # s3 @ rest) = s2 @ CHR ''='' # s3 @ rest"
    using span_run [OF w2(2), of "s2 @ CHR ''='' # s3 @ rest"] h3 by auto
  have d: "dropWhile is_space (s2 @ CHR ''='' # s3 @ rest) = CHR ''='' # s3 @ rest"
    using span_run(2) [OF s2, of "CHR ''='' # s3 @ rest"] h4 by auto
  have "dropWhile is_space (s3 @ rest) = dropWhile is_space rest"
    using s3 by (simp add: list_all_iff dropWhile_append2)
  then have e: "set (dropWhile is_space (s3 @ rest)) \<subseteq> set rest"
    by (simp add: set_dropWhileD subsetI)
  have f: "\<not> list_ex is_line_terminator (dropWhile is_space (s3 @ rest))"
    using rest e by (auto simp: list_ex_iff)
  show ?thesis
    unfolding regex_test_def Let_def a b c d using w1 s1 w2 f by simp
qed

lemma regex_matches_if_test:
  assumes "regex_test s"
  shows "regex_matches s"
proof -
  define w1 where "w1 = takeWhile is_word s"
  define r1 where "r1 = dropWhile is_word s"
  define s1 where "s1 = takeWhile is_space r1"
  define r2 where "r2 = dropWhile is_space r1"
  define w2 where "w2 = takeWhile is_word r2"
  define r3 where "r3 = dropWhile is_word r2"
  define s2 where "s2 = takeWhile is_space r3"
  define r4 where "r4 = dropWhile is_space r3"
  from assms have ne: "w1 \<noteq> []" "s1 \<noteq> []" "w2 \<noteq> []"
    and r4: "case r4 of [] \<Rightarrow> False
             | c # r5 \<Rightarrow> c = CHR ''='' \<and> \<not> list_ex is_line_terminator (dropWhile is_space r5)"
    unfolding regex_test_def Let_def w1_def r1_def s1_def r2_def w2_def r3_def r4_def by auto
  from r4 obtain r5 where r45: "r4 = CHR ''='' # r5"
    and nl: "\<not> list_ex is_line_terminator (dropWhile is_space r5)"
    by (cases r4) auto
  define s3 where "s3 = takeWhile is_space r5"
  define rest where "rest = dropWhile is_space r5"
  have "s = w1 @ r1" by (simp add: w1_def r1_def)
  also have "r1 = s1 @ r2" by (simp add: s1_def r2_def)
  also have "r2 = w2 @ r3" by (simp add: w2_def r3_def)
  also have "r3 = s2 @ r4" by (simp add: s2_def r4_def)
  also have "r4 = CHR ''='' # s3 @ rest" by (simp add: r45 s3_def rest_def)
  finally have s: "s = w1 @ s1 @ w2 @ s2 @ CHR ''='' # s3 @ rest" .
  have all: "list_all is_word w1" "list_all is_space s1" "list_all is_word w2"
            "list_all is_space s2" "list_all is_space s3"
    unfolding w1_def s1_def w2_def s2_def s3_def
    by (auto simp: list_all_iff dest: set_takeWhileD)
  show ?thesis
    unfolding regex_matches_def
    using s ne all nl unfolding rest_def [symmetric] by blast
qed

lemma regex_test_iff: "regex_test s = regex_matches s"
  using regex_test_if_matches regex_matches_if_test by blast


lemma split_on_unfold:
  "split_on sep s =
     takeWhile (\<lambda>c. c \<noteq> sep) s #
     (case dropWhile (\<lambda>c. c \<noteq> sep) s of [] \<Rightarrow> [] | c # r \<Rightarrow> split_on sep r)"
  by (induction s) (auto split: list.splits)

lemma hd_split_on: "hd (split_on sep s) = takeWhile (\<lambda>c. c \<noteq> sep) s"
  by (subst split_on_unfold) simp

lemma split_on_nonempty: "split_on sep s \<noteq> []"
  by (subst split_on_unfold) simp

lemma nth1_split_on:
  "nth_opt (split_on sep s) (Suc 0) =
     (case dropWhile (\<lambda>c. c \<noteq> sep) s of
        [] \<Rightarrow> None
      | c # r \<Rightarrow> Some (takeWhile (\<lambda>c. c \<noteq> sep) r))"
proof (cases "dropWhile (\<lambda>c. c \<noteq> sep) s")
  case Nil
  show ?thesis by (subst split_on_unfold) (simp add: nth_opt_def Nil)
next
  case (Cons c r)
  have "split_on sep r \<noteq> []" by (rule split_on_nonempty)
  then have "nth_opt (x # split_on sep r) (Suc 0) = Some (hd (split_on sep r))" for x :: string
    by (cases "split_on sep r") (auto simp: nth_opt_def)
  then show ?thesis by (subst split_on_unfold) (simp add: hd_split_on Cons)
qed

lemma trim_spaces:
  assumes "list_all is_space a" "list_all is_space b" "w \<noteq> []"
    "\<not> is_space (hd w)" "\<not> is_space (last w)"
  shows "trim (a @ w @ b) = w"
proof -
  have 1: "dropWhile is_space (a @ w @ b) = w @ b"
    using span_run(2) [OF assms(1), of "w @ b"] assms(3,4) by auto
  have rb: "list_all is_space (rev b)" using assms(2) by (simp add: list_all_iff)
  have "\<not> is_space (hd (rev w))" using assms(3,5) by (simp add: hd_rev)
  then have 2: "dropWhile is_space (rev b @ rev w) = rev w"
    using span_run(2) [OF rb, of "rev w"] by auto
  show ?thesis by (simp add: trim_def 1 2)
qed

lemma trim_all_space:
  assumes "list_all is_space a"
  shows "trim a = []"
proof -
  have d: "dropWhile is_space a = []" using assms by (induction a) auto
  show ?thesis by (simp add: trim_def d)
qed

lemma takeWhile_takeWhile_subset:
  "set (takeWhile Q (takeWhile P xs)) \<subseteq> set (takeWhile Q xs)"
  by (induction xs) auto

lemma space_not_word: "\<not> is_word (CHR '' '')" "is_space (CHR '' '')"
  by (auto simp: is_word_def is_alpha_def is_digit_def is_space_def)

text \<open>The second word of a text that the regular expression accepts: its NAME.\<close>

definition regex_name :: "string \<Rightarrow> string" where
  "regex_name s = takeWhile is_word (dropWhile is_space (dropWhile is_word s))"

lemma variableNamingRegex_test_nonempty_word:
  "variableNamingRegex_test k \<Longrightarrow> k \<noteq> [] \<and> list_all is_word k"
  by (cases k) (auto simp: variableNamingRegex_test_def is_word_def list_all_iff)

lemma key_is_regex_name:
  assumes rt: "regex_test t"
      and fk: "findKey (split_on (CHR '' '') t) = Inr k"
      and vt: "list_all is_word (findVarType t)"
  shows "k = regex_name t"
proof -
  let ?ns = "\<lambda>c. c \<noteq> CHR '' ''"
  let ?ne = "\<lambda>c. c \<noteq> CHR ''=''"
  from rt obtain w1 s1 w2 s2 s3 rest where
    t: "t = w1 @ s1 @ w2 @ s2 @ CHR ''='' # s3 @ rest"
    and w1: "w1 \<noteq> []" "list_all is_word w1"
    and s1: "s1 \<noteq> []" "list_all is_space s1"
    and w2: "w2 \<noteq> []" "list_all is_word w2"
    and s2: "list_all is_space s2" and s3: "list_all is_space s3"
    unfolding regex_test_iff regex_matches_def by blast
  let ?R3 = "s2 @ CHR ''='' # s3 @ rest"
  let ?R = "w2 @ ?R3"
  from s1 obtain c1 s1' where s1c: "s1 = c1 # s1'" and c1: "is_space c1"
    and s1': "list_all is_space s1'" by (cases s1) auto
  have w1ns: "list_all ?ns w1" using w1(2) space_not_word(1) by (auto simp: list_all_iff)
  have w2ns: "list_all ?ns w2" using w2(2) space_not_word(1) by (auto simp: list_all_iff)
  have w2ne: "list_all ?ne w2" using w2(2) eq_not_word_space(1) by (auto simp: list_all_iff)
  have s1ne: "list_all ?ne s1'" using s1' eq_not_word_space(2) by (auto simp: list_all_iff)
  have s2ne: "list_all ?ne s2" using s2 eq_not_word_space(2) by (auto simp: list_all_iff)
  \<comment> \<open>the type is a word, so the white space after it starts with a space\<close>
  have c1sp: "c1 = CHR '' ''"
  proof (rule ccontr)
    assume n: "c1 \<noteq> CHR '' ''"
    have "takeWhile ?ns t = w1 @ takeWhile ?ns (c1 # s1' @ ?R)"
      unfolding t s1c using w1ns by (simp add: list_all_iff takeWhile_append2)
    with n have "c1 \<in> set (takeWhile ?ns t)" by simp
    with vt have "is_word c1" by (simp add: findVarType_def hd_split_on list_all_iff)
    with c1 show False using word_not_space by blast
  qed
  have dw: "dropWhile ?ns t = CHR '' '' # s1' @ ?R"
    unfolding t s1c c1sp using span_run(2) [OF w1ns, of "CHR '' '' # s1' @ ?R"] by simp
  from fk dw have key: "variableNamingRegex_test k"
    and k: "k = trim (takeWhile ?ne (takeWhile ?ns (s1' @ ?R)))"
    by (auto simp: findKey_def nth1_split_on hd_split_on Let_def split: if_splits)

  \<comment> \<open>no further space before the name, or the key would be empty\<close>
  have nosp: "list_all ?ns s1'"
  proof (rule ccontr)
    assume "\<not> list_all ?ns s1'"
    then have "CHR '' '' \<in> set s1'" by (auto simp: list_all_iff)
    then have "takeWhile ?ns (s1' @ ?R) = takeWhile ?ns s1'"
      by (simp add: takeWhile_append1)
    then have "set (takeWhile ?ne (takeWhile ?ns (s1' @ ?R))) \<subseteq> set s1'"
      by (metis set_takeWhileD subsetI)
    with s1' have "list_all is_space (takeWhile ?ne (takeWhile ?ns (s1' @ ?R)))"
      by (auto simp: list_all_iff)
    with k have "k = []" by (simp add: trim_all_space)
    with key show False by (simp add: variableNamingRegex_test_def)
  qed
  have p: "takeWhile ?ns (s1' @ ?R) = s1' @ w2 @ takeWhile ?ns ?R3"
    using nosp w2ns by (simp add: list_all_iff takeWhile_append2)
  have "takeWhile ?ne (s1' @ w2 @ takeWhile ?ns ?R3) =
        s1' @ w2 @ takeWhile ?ne (takeWhile ?ns ?R3)"
    using s1ne w2ne by (simp add: list_all_iff takeWhile_append2)
  with k p have k2: "k = trim (s1' @ w2 @ takeWhile ?ne (takeWhile ?ns ?R3))" by simp
  have "takeWhile ?ne ?R3 = s2"
    using span_run(1) [OF s2ne, of "CHR ''='' # s3 @ rest"] by simp
  with takeWhile_takeWhile_subset [of ?ne ?ns ?R3]
  have "set (takeWhile ?ne (takeWhile ?ns ?R3)) \<subseteq> set s2" by simp
  with s2 have z: "list_all is_space (takeWhile ?ne (takeWhile ?ns ?R3))"
    by (auto simp: list_all_iff)
  have hw: "\<not> is_space (hd w2)" "\<not> is_space (last w2)"
    using w2 by (auto simp: list_all_iff dest!: word_not_space)
  from k2 trim_spaces [OF s1' z w2(1) hw] have kw: "k = w2" by simp
  \<comment> \<open>the second word of the regular expression is the same word\<close>
  have h1: "\<not> is_word (hd (s1 @ ?R))" using s1 by (cases s1) (auto dest: word_not_space)
  have h2: "\<not> is_space (hd ?R)" using w2 by (cases w2) (auto dest: word_not_space)
  have h3: "\<not> is_word (hd ?R3)" using s2 eq_not_word_space by (cases s2) (auto dest: word_not_space)
  have "dropWhile is_word t = s1 @ ?R"
    unfolding t using span_run(2) [OF w1(2), of "s1 @ ?R"] h1 by auto
  moreover have "dropWhile is_space (s1 @ ?R) = ?R"
    using span_run(2) [OF s1(2), of ?R] h2 by auto
  moreover have "takeWhile is_word ?R = w2"
    using span_run(1) [OF w2(2), of ?R3] h3 by auto
  ultimately have "regex_name t = w2" by (simp add: regex_name_def)
  with kw show ?thesis by simp
qed

subsection \<open>The callback, line by line\<close>

text \<open>
  The three tests of the callback, on a line: blank or a comment; of the shape of the
  regular expression; and, for a line of that shape, the declaration that the \<^verbatim>\<open>try\<close>
  block computes, or the error it throws. \<open>store\<close> is the update of \<^verbatim>\<open>envVars\<close> at
  the end of the \<^verbatim>\<open>try\<close> block.
\<close>

definition skippable :: "string \<Rightarrow> bool" where
  "skippable line = (trim line = [] \<or> hd (trim line) = CHR ''#'')"

definition shaped :: "string \<Rightarrow> bool" where
  "shaped line = regex_test (trim line)"

definition declaration_of :: "string \<Rightarrow> env_error + ParsedEnvVar" where
  "declaration_of line =
     (case findKey (split_on (CHR '' '') (trim line)) of
        Inl error \<Rightarrow> Inl error
      | Inr key \<Rightarrow>
          (case typeImplication (findVarType (trim line)) (findValue (trim line)) of
             Inl error \<Rightarrow> Inl error
           | Inr v \<Rightarrow> Inr \<lparr> var_key = key, var_type = findVarType (trim line), var_value = v \<rparr>))"

definition aborts :: "string \<Rightarrow> bool" where
  "aborts line = (\<not> skippable line \<and> shaped line \<and> isl (declaration_of line))"

definition store :: "ParsedEnvVar \<Rightarrow> ParsedEnvVar list \<Rightarrow> ParsedEnvVar list" where
  "store d envVars =
     (if list_ex (\<lambda>x. var_key x = var_key d) envVars
      then envVars [nat (findIndex (\<lambda>x. var_key x = var_key d) envVars) := d]
      else envVars @ [d])"

lemma declaration_of_key:
  "declaration_of line = Inr d \<Longrightarrow> findKey (split_on (CHR '' '') (trim line)) = Inr (var_key d)"
  by (auto simp: declaration_of_def split: sum.splits)

lemma declaration_of_record:
  "declaration_of line = Inr d \<Longrightarrow>
   \<lparr> var_key = var_key d, var_type = findVarType (trim line), var_value = var_value d \<rparr> = d"
  by (auto simp: declaration_of_def split: sum.splits)

lemma parseEnvLine_eq:
  "parseEnvLine n line envVars console =
     (if skippable line then (Inr envVars, console)
      else if \<not> shaped line then (Inr envVars, console @ [SkippingInvalidLine (n + 1) line])
      else (case declaration_of line of
              Inl e \<Rightarrow> (Inl (ErrorParsingLine (n + 1) e), console)
            | Inr d \<Rightarrow>
                (Inr (store d envVars),
                 if list_ex (\<lambda>x. var_key x = var_key d) envVars
                 then console @ [DuplicateEnvironmentVariable (var_key d)] else console)))"
  by (auto simp: parseEnvLine_def skippable_def shaped_def declaration_of_def store_def Let_def
           split: sum.splits)


lemma parseEnvLine_skippable:
  "skippable line \<Longrightarrow> parseEnvLine n line envVars console = (Inr envVars, console)"
  by (simp add: parseEnvLine_eq)

lemma parseEnvLine_malformed:
  "\<not> skippable line \<Longrightarrow> \<not> shaped line \<Longrightarrow>
   parseEnvLine n line envVars console =
     (Inr envVars, console @ [SkippingInvalidLine (n + 1) line])"
  by (simp add: parseEnvLine_eq)

lemma parseEnvLine_aborts:
  "aborts line \<Longrightarrow>
   \<exists>e. declaration_of line = Inl e \<and>
       parseEnvLine n line envVars console = (Inl (ErrorParsingLine (n + 1) e), console)"
  by (cases "declaration_of line") (auto simp: parseEnvLine_eq aborts_def)

lemma parseEnvLine_not_aborts:
  "\<not> aborts line \<Longrightarrow> \<exists>vs c. parseEnvLine n line envVars console = (Inr vs, c)"
  by (cases "declaration_of line") (auto simp: parseEnvLine_eq aborts_def)

lemma aborts_iff:
  "aborts line =
     (\<not> skippable line \<and> shaped line \<and>
      (isl (findKey (split_on (CHR '' '') (trim line))) \<or>
       isl (typeImplication (findVarType (trim line)) (findValue (trim line)))))"
  by (auto simp: aborts_def declaration_of_def split: sum.splits)

lemma forEach_line_first_abort:
  assumes "i < length lines" "\<forall>j<i. \<not> aborts (lines ! j)" "aborts (lines ! i)"
  shows "\<exists>e c. declaration_of (lines ! i) = Inl e \<and>
               forEach_line n lines envVars console = (Inl (ErrorParsingLine (n + i + 1) e), c)"
  using assms
proof (induction lines arbitrary: n i envVars console)
  case Nil
  then show ?case by simp
next
  case (Cons l ls)
  show ?case
  proof (cases i)
    case 0
    with Cons.prems parseEnvLine_aborts [of l n envVars console] show ?thesis by auto
  next
    case (Suc k)
    with Cons.prems have na: "\<not> aborts l" by auto
    then obtain vs c where pl: "parseEnvLine n l envVars console = (Inr vs, c)"
      using parseEnvLine_not_aborts by blast
    from Cons.prems Suc have k: "k < length ls" "\<forall>j<k. \<not> aborts (ls ! j)" "aborts (ls ! k)"
      by auto
    from Cons.IH [OF k, of "n + 1" vs c] pl Suc show ?thesis by simp
  qed
qed

subsection \<open>The three tiers\<close>

text \<open>
  One step of the \<^verbatim>\<open>forEach\<close> over the lines, in each of the three cases, and the first
  line that aborts in a whole file.
\<close>

lemma forEach_line_Cons_policy:
  "(skippable line \<longrightarrow>
      forEach_line n (line # lines) envVars console = forEach_line (n + 1) lines envVars console) \<and>
   (\<not> skippable line \<and> \<not> shaped line \<longrightarrow>
      forEach_line n (line # lines) envVars console =
        forEach_line (n + 1) lines envVars (console @ [SkippingInvalidLine (n + 1) line])) \<and>
   (aborts line \<longrightarrow>
      (\<exists>e. parseEnvLine n line envVars console = (Inl (ErrorParsingLine (n + 1) e), console) \<and>
           forEach_line n (line # lines) envVars console =
             (Inl (ErrorParsingLine (n + 1) e), console)))"
  using parseEnvLine_aborts [of line n envVars console]
  by (auto simp: parseEnvLine_skippable parseEnvLine_malformed)

lemma parseEnvFile_first_abort:
  assumes "fs envPath = Some file" "i < length (split_on (CHR 0x0A) file)"
    "\<forall>j<i. \<not> aborts (split_on (CHR 0x0A) file ! j)" "aborts (split_on (CHR 0x0A) file ! i)"
  shows "\<exists>e c. parseEnvFile fs envPath console = (Inl (ErrorParsingLine (i + 1) e), c)"
  using forEach_line_first_abort [OF assms(2,3,4), of 0 "[]" console] assms(1)
  by (auto simp: parseEnvFile_def)

text \<open>
  A file of five lines: a comment, a blank line, a line that is no declaration, a
  declaration whose value is no number, and a well-formed declaration.
\<close>

definition example_file :: string where
  "example_file = ''# c'' @ [CHR 0x0A] @ [CHR 0x0A] @ ''junk'' @ [CHR 0x0A] @ ''NUMBER X=abc'' @ [CHR 0x0A] @ ''STRING A=b''"

lemma split_example_file:
  "split_on (CHR 0x0A) example_file = [''# c'', '''', ''junk'', ''NUMBER X=abc'', ''STRING A=b'']"
  by code_simp

text \<open>
  Claim C1. \<open>parseEnvFile\<close> treats each line in one of three ways. A line whose trimmed
  form is empty or starts with \<^verbatim>\<open>#\<close> (\<open>skippable\<close>) leaves the variables and the console
  as they are, and the loop goes on. A line that is not skippable and does not match
  \<^verbatim>\<open>/^(\w+)\s+(\w+)\s*=\s*(.*)$/i\<close> (not \<open>shaped\<close>) leaves the variables as they are,
  adds the warning \<^verbatim>\<open>Skipping invalid line n+1\<close> to the console, and the loop goes on. A
  line that matches, and whose name \<open>findKey\<close> rejects or whose value \<open>typeImplication\<close>
  rejects, ends the whole parse with \<^verbatim>\<open>Error parsing line n+1\<close>, where \<open>n\<close> is the index of the
  line from zero; and the first such line of a file is the one the error of
  \<open>parseEnvFile\<close> names.
\<close>

theorem parseEnvFile_line_policy:
  "(skippable line \<longrightarrow>
      parseEnvLine n line envVars console = (Inr envVars, console) \<and>
      forEach_line n (line # lines) envVars console = forEach_line (n + 1) lines envVars console) \<and>
   (\<not> skippable line \<and> \<not> shaped line \<longrightarrow>
      parseEnvLine n line envVars console =
        (Inr envVars, console @ [SkippingInvalidLine (n + 1) line]) \<and>
      forEach_line n (line # lines) envVars console =
        forEach_line (n + 1) lines envVars (console @ [SkippingInvalidLine (n + 1) line])) \<and>
   (\<not> skippable line \<and> shaped line \<and>
    (isl (findKey (split_on (CHR '' '') (trim line))) \<or>
     isl (typeImplication (findVarType (trim line)) (findValue (trim line)))) \<longrightarrow>
      (\<exists>e. parseEnvLine n line envVars console = (Inl (ErrorParsingLine (n + 1) e), console) \<and>
           forEach_line n (line # lines) envVars console =
             (Inl (ErrorParsingLine (n + 1) e), console))) \<and>
   (fs envPath = Some file \<and> i < length (split_on (CHR 0x0A) file) \<and>
    (\<forall>j<i. \<not> aborts (split_on (CHR 0x0A) file ! j)) \<and> aborts (split_on (CHR 0x0A) file ! i) \<longrightarrow>
      (\<exists>e c. parseEnvFile fs envPath console = (Inl (ErrorParsingLine (i + 1) e), c))) \<and>
   skippable line = (trim line = [] \<or> hd (trim line) = CHR ''#'') \<and>
   shaped line = regex_matches (trim line) \<and>
   aborts line =
     (\<not> skippable line \<and> shaped line \<and>
      (isl (findKey (split_on (CHR '' '') (trim line))) \<or>
       isl (typeImplication (findVarType (trim line)) (findValue (trim line)))))"
proof -
  have a: "skippable line \<longrightarrow>
      parseEnvLine n line envVars console = (Inr envVars, console) \<and>
      forEach_line n (line # lines) envVars console = forEach_line (n + 1) lines envVars console"
    using forEach_line_Cons_policy [of line n lines envVars console]
    by (simp add: parseEnvLine_skippable)
  have b: "\<not> skippable line \<and> \<not> shaped line \<longrightarrow>
      parseEnvLine n line envVars console =
        (Inr envVars, console @ [SkippingInvalidLine (n + 1) line]) \<and>
      forEach_line n (line # lines) envVars console =
        forEach_line (n + 1) lines envVars (console @ [SkippingInvalidLine (n + 1) line])"
    using forEach_line_Cons_policy [of line n lines envVars console]
    by (simp add: parseEnvLine_malformed)
  have c: "\<not> skippable line \<and> shaped line \<and>
    (isl (findKey (split_on (CHR '' '') (trim line))) \<or>
     isl (typeImplication (findVarType (trim line)) (findValue (trim line)))) \<longrightarrow>
      (\<exists>e. parseEnvLine n line envVars console = (Inl (ErrorParsingLine (n + 1) e), console) \<and>
           forEach_line n (line # lines) envVars console =
             (Inl (ErrorParsingLine (n + 1) e), console))"
    using forEach_line_Cons_policy [of line n lines envVars console] aborts_iff [of line]
    by blast
  have d: "fs envPath = Some file \<and> i < length (split_on (CHR 0x0A) file) \<and>
    (\<forall>j<i. \<not> aborts (split_on (CHR 0x0A) file ! j)) \<and> aborts (split_on (CHR 0x0A) file ! i) \<longrightarrow>
      (\<exists>e c. parseEnvFile fs envPath console = (Inl (ErrorParsingLine (i + 1) e), c))"
    using parseEnvFile_first_abort by blast
  have e: "skippable line = (trim line = [] \<or> hd (trim line) = CHR ''#'')"
    by (simp add: skippable_def)
  have f: "shaped line = regex_matches (trim line)"
    by (simp add: shaped_def regex_test_iff)
  from a b c d e f aborts_iff [of line] show ?thesis by blast
qed

theorem parseEnvFile_line_policy_witness:
  "skippable ''# c'' \<and>
   parseEnvLine 0 ''# c'' [] [] = (Inr [], []) \<and>
   \<not> skippable ''junk'' \<and> \<not> shaped ''junk'' \<and>
   parseEnvLine 2 ''junk'' [] [] = (Inr [], [SkippingInvalidLine 3 ''junk'']) \<and>
   \<not> skippable ''NUMBER X=abc'' \<and> shaped ''NUMBER X=abc'' \<and>
   isl (typeImplication (findVarType (trim ''NUMBER X=abc'')) (findValue (trim ''NUMBER X=abc''))) \<and>
   (\<exists>e. parseEnvLine 3 ''NUMBER X=abc'' [] [] = (Inl (ErrorParsingLine 4 e), [])) \<and>
   [''.env'' \<mapsto> example_file] ''.env'' = Some example_file \<and>
   3 < length (split_on (CHR 0x0A) example_file) \<and>
   \<not> aborts (split_on (CHR 0x0A) example_file ! 0) \<and>
   \<not> aborts (split_on (CHR 0x0A) example_file ! 1) \<and>
   \<not> aborts (split_on (CHR 0x0A) example_file ! 2) \<and>
   aborts (split_on (CHR 0x0A) example_file ! 3) \<and>
   (\<exists>e c. parseEnvFile [''.env'' \<mapsto> example_file] ''.env'' [] = (Inl (ErrorParsingLine 4 e), c))"
proof -
  have s1: "skippable ''# c''" by code_simp
  have m1: "\<not> skippable ''junk''" by code_simp
  have m2: "\<not> shaped ''junk''" by code_simp
  have a1: "\<not> skippable ''NUMBER X=abc''" by code_simp
  have a2: "shaped ''NUMBER X=abc''" by code_simp
  have a3: "isl (typeImplication (findVarType (trim ''NUMBER X=abc'')) (findValue (trim ''NUMBER X=abc'')))"
    by code_simp
  have f1: "[''.env'' \<mapsto> example_file] ''.env'' = Some example_file" by simp
  have f2: "3 < length (split_on (CHR 0x0A) example_file)" by (simp add: split_example_file)
  have n0: "\<not> aborts (split_on (CHR 0x0A) example_file ! 0)"
    unfolding split_example_file by code_simp
  have n1: "\<not> aborts (split_on (CHR 0x0A) example_file ! 1)"
    unfolding split_example_file by code_simp
  have n2: "\<not> aborts (split_on (CHR 0x0A) example_file ! 2)"
    unfolding split_example_file by code_simp
  have n3: "aborts (split_on (CHR 0x0A) example_file ! 3)"
    unfolding split_example_file by code_simp
  have nall: "\<forall>j<3. \<not> aborts (split_on (CHR 0x0A) example_file ! j)"
  proof (intro allI impI)
    fix j :: nat assume "j < 3"
    then have "j = 0 \<or> j = 1 \<or> j = 2" by arith
    with n0 n1 n2 show "\<not> aborts (split_on (CHR 0x0A) example_file ! j)" by blast
  qed
  have c1: "parseEnvLine 0 ''# c'' [] [] = (Inr [], [])"
    using parseEnvFile_line_policy [where line = "''# c''" and n = 0 and envVars = "[]"
        and console = "[]"] s1 by blast
  have "parseEnvLine 2 ''junk'' [] [] = (Inr [], [] @ [SkippingInvalidLine (2 + 1) ''junk''])"
    using parseEnvFile_line_policy [where line = "''junk''" and n = 2 and envVars = "[]"
        and console = "[]"] m1 m2 by blast
  then have c2: "parseEnvLine 2 ''junk'' [] [] = (Inr [], [SkippingInvalidLine 3 ''junk''])"
    by simp
  have "\<exists>e. parseEnvLine 3 ''NUMBER X=abc'' [] [] = (Inl (ErrorParsingLine (3 + 1) e), [])"
    using parseEnvFile_line_policy [where line = "''NUMBER X=abc''" and n = 3 and envVars = "[]"
        and console = "[]"] a1 a2 a3 by blast
  then have c3: "\<exists>e. parseEnvLine 3 ''NUMBER X=abc'' [] [] = (Inl (ErrorParsingLine 4 e), [])"
    by simp
  have "\<exists>e c. parseEnvFile [''.env'' \<mapsto> example_file] ''.env'' [] =
              (Inl (ErrorParsingLine (3 + 1) e), c)"
    using parseEnvFile_line_policy [where fs = "[''.env'' \<mapsto> example_file]"
        and envPath = "''.env''" and ?file = example_file and i = 3 and console = "[]"]
      f1 f2 nall n3 by blast
  then have c4: "\<exists>e c. parseEnvFile [''.env'' \<mapsto> example_file] ''.env'' [] =
              (Inl (ErrorParsingLine 4 e), c)"
    by simp
  from s1 m1 m2 a1 a2 a3 f1 f2 n0 n1 n2 n3 c1 c2 c3 c4 show ?thesis by blast
qed


subsection \<open>The names of the stored variables\<close>

text \<open>
  On a line that matches the regular expression, the name that \<open>findKey\<close> accepts is
  the second group of the match, and \<open>findKey\<close> accepts only names that
  \<open>variableNamingRegex\<close> matches.
\<close>

lemma typeImplication_Inr_keyword:
  assumes "typeImplication varType v = Inr x"
  shows "varType \<in> set type_keywords"
  using assms
  by (auto simp: typeImplication_def typeImplication_try_def type_keywords_def
           split: sum.splits if_splits)

lemma type_keywords_words: "varType \<in> set type_keywords \<Longrightarrow> list_all is_word varType"
  by (auto simp: type_keywords_def is_word_def is_alpha_def)

lemma findKey_valid: "findKey lineArray = Inr k \<Longrightarrow> variableNamingRegex_test k"
  by (auto simp: findKey_def Let_def split: if_splits)

lemma declaration_of_name:
  assumes sh: "shaped line" and d: "declaration_of line = Inr d"
  shows "var_key d = regex_name (trim line) \<and> variableNamingRegex_test (var_key d)"
proof -
  from d obtain v where fk: "findKey (split_on (CHR '' '') (trim line)) = Inr (var_key d)"
    and ti: "typeImplication (findVarType (trim line)) (findValue (trim line)) = Inr v"
    by (auto simp: declaration_of_def split: sum.splits)
  from ti have "list_all is_word (findVarType (trim line))"
    by (intro type_keywords_words typeImplication_Inr_keyword)
  with sh fk have "var_key d = regex_name (trim line)"
    unfolding shaped_def by (intro key_is_regex_name)
  with findKey_valid [OF fk] show ?thesis by simp
qed

lemma invalid_name_aborts:
  assumes "\<not> skippable line" "shaped line" "\<not> variableNamingRegex_test (regex_name (trim line))"
  shows "aborts line"
proof (cases "declaration_of line")
  case (Inl e)
  with assms show ?thesis by (simp add: aborts_def)
next
  case (Inr d)
  with declaration_of_name [OF assms(2)] assms(3) show ?thesis by auto
qed

lemma list_all_store:
  assumes "list_all P envVars" "P d"
  shows "list_all P (store d envVars)"
  using assms set_update_subset_insert [of envVars _ d]
  by (auto simp: store_def list_all_iff)

lemma parseEnvLine_keys_valid:
  assumes "parseEnvLine n line envVars console = (Inr vs, c)"
      and "list_all (\<lambda>x. variableNamingRegex_test (var_key x)) envVars"
  shows "list_all (\<lambda>x. variableNamingRegex_test (var_key x)) vs"
proof (cases "skippable line \<or> \<not> shaped line")
  case True
  with assms show ?thesis by (auto simp: parseEnvLine_eq split: if_splits)
next
  case False
  with assms(1) obtain d where d: "declaration_of line = Inr d" and vs: "vs = store d envVars"
    by (cases "declaration_of line") (auto simp: parseEnvLine_eq)
  from findKey_valid [OF declaration_of_key [OF d]] assms(2) vs show ?thesis
    by (simp add: list_all_store)
qed

lemma forEach_line_keys_valid:
  assumes "forEach_line n lines envVars console = (Inr vs, c)"
      and "list_all (\<lambda>x. variableNamingRegex_test (var_key x)) envVars"
  shows "list_all (\<lambda>x. variableNamingRegex_test (var_key x)) vs"
  using assms
proof (induction lines arbitrary: n envVars console)
  case Nil
  then show ?case by simp
next
  case (Cons l ls)
  from Cons.prems(1) obtain vs' c' where pl: "parseEnvLine n l envVars console = (Inr vs', c')"
    and rest: "forEach_line (n + 1) ls vs' c' = (Inr vs, c)"
    by (cases "parseEnvLine n l envVars console") (auto split: sum.splits)
  from Cons.IH [OF rest parseEnvLine_keys_valid [OF pl Cons.prems(2)]] show ?case .
qed

lemma parseEnvFile_result_keys:
  assumes "parseEnvFile fs envPath console = (Inr vs, c)"
  shows "list_all (\<lambda>x. variableNamingRegex_test (var_key x)) vs"
  using assms forEach_line_keys_valid [of 0 _ "[]" console vs c]
  by (auto simp: parseEnvFile_def split: option.splits)

lemma variableNamingRegex_test_eq:
  "variableNamingRegex_test k =
     (k \<noteq> [] \<and> (is_alpha (hd k) \<or> hd k = CHR ''_'') \<and>
      list_all (\<lambda>c. is_alpha c \<or> is_digit c \<or> c = CHR ''_'') (tl k))"
  by (cases k) (auto simp: variableNamingRegex_test_def)

text \<open>
  Claim C9. Every key of the list that \<open>parseEnvFile\<close> returns matches
  \<^verbatim>\<open>/^[a-zA-Z_][a-zA-Z0-9_]*$/\<close>: a letter or an underscore, then letters, digits and
  underscores. A line that matches the shape and whose name group does not match this
  pattern ends the parse with an error, so that no such name is stored; a line that is
  stored carries its name group as key. \<^verbatim>\<open>STRING 123bad=test\<close> fails with
  \<^verbatim>\<open>Invalid or missing variable name\<close>, and \<^verbatim>\<open>STRING _ok123=test\<close> succeeds.
\<close>

theorem parseEnvFile_keys_valid:
  "(parseEnvFile fs envPath console = (Inr envVars, console') \<longrightarrow>
      list_all (\<lambda>x. variableNamingRegex_test (var_key x)) envVars) \<and>
   (\<not> skippable line \<and> shaped line \<and> \<not> variableNamingRegex_test (regex_name (trim line)) \<longrightarrow>
      (\<exists>e. parseEnvLine n line vs c = (Inl (ErrorParsingLine (n + 1) e), c))) \<and>
   (\<not> skippable line \<and> shaped line \<and> parseEnvLine n line vs c = (Inr vs', c') \<longrightarrow>
      (\<exists>d. declaration_of line = Inr d \<and> vs' = store d vs \<and>
           var_key d = regex_name (trim line) \<and> variableNamingRegex_test (var_key d))) \<and>
   variableNamingRegex_test k =
     (k \<noteq> [] \<and> (is_alpha (hd k) \<or> hd k = CHR ''_'') \<and>
      list_all (\<lambda>c. is_alpha c \<or> is_digit c \<or> c = CHR ''_'') (tl k)) \<and>
   parseEnvFile [''.env'' \<mapsto> ''STRING 123bad=test''] ''.env'' [] =
     (Inl (ErrorParsingLine 1 (InvalidOrMissingVariableName ''123bad'')), []) \<and>
   parseEnvFile [''.env'' \<mapsto> ''STRING _ok123=test''] ''.env'' [] =
     (Inr [\<lparr> var_key = ''_ok123'', var_type = ''STRING'', var_value = EString ''test'' \<rparr>], [])"
proof -
  have a: "parseEnvFile fs envPath console = (Inr envVars, console') \<longrightarrow>
      list_all (\<lambda>x. variableNamingRegex_test (var_key x)) envVars"
    using parseEnvFile_result_keys by blast
  have b: "\<not> skippable line \<and> shaped line \<and> \<not> variableNamingRegex_test (regex_name (trim line)) \<longrightarrow>
      (\<exists>e. parseEnvLine n line vs c = (Inl (ErrorParsingLine (n + 1) e), c))"
    using invalid_name_aborts [of line] parseEnvLine_aborts [of line n vs c] by blast
  have c: "\<not> skippable line \<and> shaped line \<and> parseEnvLine n line vs c = (Inr vs', c') \<longrightarrow>
      (\<exists>d. declaration_of line = Inr d \<and> vs' = store d vs \<and>
           var_key d = regex_name (trim line) \<and> variableNamingRegex_test (var_key d))"
  proof (intro impI, elim conjE)
    assume h: "\<not> skippable line" "shaped line" "parseEnvLine n line vs c = (Inr vs', c')"
    then obtain d where d: "declaration_of line = Inr d" and v: "vs' = store d vs"
      by (cases "declaration_of line") (auto simp: parseEnvLine_eq)
    with declaration_of_name [OF h(2) d] show "\<exists>d. declaration_of line = Inr d \<and> vs' = store d vs \<and>
           var_key d = regex_name (trim line) \<and> variableNamingRegex_test (var_key d)"
      by blast
  qed
  have e1: "parseEnvFile [''.env'' \<mapsto> ''STRING 123bad=test''] ''.env'' [] =
     (Inl (ErrorParsingLine 1 (InvalidOrMissingVariableName ''123bad'')), [])"
    by code_simp
  have e2: "parseEnvFile [''.env'' \<mapsto> ''STRING _ok123=test''] ''.env'' [] =
     (Inr [\<lparr> var_key = ''_ok123'', var_type = ''STRING'', var_value = EString ''test'' \<rparr>], [])"
    by code_simp
  from a b c variableNamingRegex_test_eq [of k] e1 e2 show ?thesis by blast
qed

theorem parseEnvFile_keys_valid_witness:
  "parseEnvFile [''.env'' \<mapsto> ''STRING _ok123=test''] ''.env'' [] =
     (Inr [\<lparr> var_key = ''_ok123'', var_type = ''STRING'', var_value = EString ''test'' \<rparr>], []) \<and>
   list_all (\<lambda>x. variableNamingRegex_test (var_key x))
     [\<lparr> var_key = ''_ok123'', var_type = ''STRING'', var_value = EString ''test'' \<rparr>] \<and>
   \<not> skippable ''STRING 123bad=test'' \<and> shaped ''STRING 123bad=test'' \<and>
   \<not> variableNamingRegex_test (regex_name (trim ''STRING 123bad=test'')) \<and>
   (\<exists>e. parseEnvLine 0 ''STRING 123bad=test'' [] [] = (Inl (ErrorParsingLine 1 e), [])) \<and>
   \<not> skippable ''STRING _ok123=test'' \<and> shaped ''STRING _ok123=test'' \<and>
   (\<exists>d. declaration_of ''STRING _ok123=test'' = Inr d \<and>
        var_key d = regex_name (trim ''STRING _ok123=test'') \<and>
        variableNamingRegex_test (var_key d))"
proof -
  let ?v = "[\<lparr> var_key = ''_ok123'', var_type = ''STRING'', var_value = EString ''test'' \<rparr>]"
  have p: "parseEnvFile [''.env'' \<mapsto> ''STRING _ok123=test''] ''.env'' [] = (Inr ?v, [])"
    by code_simp
  have a: "list_all (\<lambda>x. variableNamingRegex_test (var_key x)) ?v"
    using parseEnvFile_keys_valid [where fs = "[''.env'' \<mapsto> ''STRING _ok123=test'']"
        and envPath = "''.env''" and console = "[]" and envVars = ?v and console' = "[]"] p
    by blast
  have b1: "\<not> skippable ''STRING 123bad=test''" by code_simp
  have b2: "shaped ''STRING 123bad=test''" by code_simp
  have b3: "\<not> variableNamingRegex_test (regex_name (trim ''STRING 123bad=test''))" by code_simp
  have b: "\<exists>e. parseEnvLine 0 ''STRING 123bad=test'' [] [] = (Inl (ErrorParsingLine 1 e), [])"
    using parseEnvFile_keys_valid [where line = "''STRING 123bad=test''" and n = 0 and vs = "[]"
        and c = "[]"] b1 b2 b3 by (simp del: fun_upd_apply)
  have c1: "\<not> skippable ''STRING _ok123=test''" by code_simp
  have c2: "shaped ''STRING _ok123=test''" by code_simp
  have c3: "parseEnvLine 0 ''STRING _ok123=test'' [] [] = (Inr ?v, [])" by code_simp
  have c: "\<exists>d. declaration_of ''STRING _ok123=test'' = Inr d \<and>
        var_key d = regex_name (trim ''STRING _ok123=test'') \<and>
        variableNamingRegex_test (var_key d)"
    using parseEnvFile_keys_valid [where line = "''STRING _ok123=test''" and n = 0 and vs = "[]"
        and c = "[]" and vs' = ?v and c' = "[]"] c1 c2 c3 by blast
  from p a b1 b2 b3 b c1 c2 c show ?thesis by blast
qed


subsection \<open>Duplicate keys\<close>

text \<open>
  \<open>first_seen\<close> keeps the first occurrence of every element of a list, in order;
  \<open>declarations_of\<close> collects the declarations of the lines that are neither skipped
  nor rejected, in the order of the file.
\<close>

fun first_seen :: "'a list \<Rightarrow> 'a list" where
  "first_seen [] = []"
| "first_seen (x # xs) = x # filter (\<lambda>y. y \<noteq> x) (first_seen xs)"

definition declarations_of :: "string list \<Rightarrow> ParsedEnvVar list" where
  "declarations_of lines =
     List.map_filter
       (\<lambda>line. if skippable line \<or> \<not> shaped line then None
               else (case declaration_of line of Inl e \<Rightarrow> None | Inr d \<Rightarrow> Some d))
       lines"

lemma findIndex_nonneg: "list_ex p xs \<Longrightarrow> 0 \<le> findIndex p xs"
  by (induction xs) (auto simp: Let_def)

lemma store_Nil: "store d [] = [d]"
  by (simp add: store_def)

lemma store_Cons:
  "store d (x # xs) = (if var_key x = var_key d then d # xs else x # store d xs)"
proof (cases "var_key x = var_key d")
  case True
  then show ?thesis by (simp add: store_def)
next
  case False
  show ?thesis
  proof (cases "list_ex (\<lambda>y. var_key y = var_key d) xs")
    case True
    from findIndex_nonneg [OF True]
    have "nat (findIndex (\<lambda>y. var_key y = var_key d) xs + 1) =
          Suc (nat (findIndex (\<lambda>y. var_key y = var_key d) xs))" by simp
    with True False findIndex_nonneg [OF True] show ?thesis
      by (simp add: store_def Let_def)
  next
    case F: False
    with False show ?thesis by (simp add: store_def)
  qed
qed

lemma keys_store:
  "map var_key (store d vs) =
     (if var_key d \<in> set (map var_key vs) then map var_key vs else map var_key vs @ [var_key d])"
  by (induction vs) (auto simp: store_Nil store_Cons)

lemma distinct_keys_store:
  "distinct (map var_key vs) \<Longrightarrow> distinct (map var_key (store d vs))"
  by (simp add: keys_store)

lemma find_store:
  "List.find (\<lambda>x. var_key x = K) (store d vs) =
     (if var_key d = K then Some d else List.find (\<lambda>x. var_key x = K) vs)"
  by (induction vs) (auto simp: store_Nil store_Cons)

lemma first_seen_filter: "first_seen (filter P xs) = filter P (first_seen xs)"
proof (induction xs)
  case Nil
  show ?case by simp
next
  case (Cons x xs)
  show ?case
  proof (cases "P x")
    case True
    with Cons show ?thesis by (simp add: conj_commute)
  next
    case False
    have "filter P (filter (\<lambda>y. y \<noteq> x) (first_seen xs)) = filter P (first_seen xs)"
      using False by (auto intro!: filter_cong)
    with False Cons show ?thesis by simp
  qed
qed

lemma set_first_seen: "set (first_seen xs) = set xs"
  by (induction xs) auto

lemma distinct_first_seen: "distinct (first_seen xs)"
  by (induction xs) (auto simp: set_first_seen)

lemma first_seen_distinct: "distinct xs \<Longrightarrow> first_seen xs = xs"
  by (induction xs) (auto simp: filter_id_conv set_first_seen)

lemma first_seen_drop:
  "k \<in> set a \<Longrightarrow> first_seen (a @ k # b) = first_seen (a @ b)"
proof (induction a)
  case Nil
  then show ?case by simp
next
  case (Cons x a)
  show ?case
  proof (cases "k = x")
    case True
    have "filter (\<lambda>y. y \<noteq> x) (first_seen (a @ x # b)) = first_seen (filter (\<lambda>y. y \<noteq> x) (a @ x # b))"
      by (rule first_seen_filter [symmetric])
    also have "\<dots> = first_seen (filter (\<lambda>y. y \<noteq> x) (a @ b))" by simp
    also have "\<dots> = filter (\<lambda>y. y \<noteq> x) (first_seen (a @ b))" by (rule first_seen_filter)
    finally show ?thesis using True by simp
  next
    case False
    with Cons show ?thesis by simp
  qed
qed

lemma keys_foldl_store:
  assumes "distinct (map var_key vs)"
  shows "map var_key (foldl (\<lambda>vs d. store d vs) vs ds) =
         first_seen (map var_key vs @ map var_key ds)"
  using assms
proof (induction ds arbitrary: vs)
  case Nil
  then show ?case by (simp add: first_seen_distinct)
next
  case (Cons d ds)
  from Cons.IH [OF distinct_keys_store [OF Cons.prems], of d]
  show ?case by (auto simp: keys_store first_seen_drop)
qed

lemma find_append_first:
  "List.find P (xs @ ys) = (case List.find P xs of None \<Rightarrow> List.find P ys | Some x \<Rightarrow> Some x)"
  by (induction xs) auto

lemma find_foldl_store:
  "List.find (\<lambda>x. var_key x = K) (foldl (\<lambda>vs d. store d vs) vs ds) =
     (case List.find (\<lambda>d. var_key d = K) (rev ds) of
        None \<Rightarrow> List.find (\<lambda>x. var_key x = K) vs
      | Some d \<Rightarrow> Some d)"
proof (induction ds arbitrary: vs)
  case Nil
  show ?case by simp
next
  case (Cons d ds)
  show ?case
    by (simp add: Cons.IH find_store find_append_first split: option.splits)
qed


lemma declarations_of_Cons:
  "declarations_of (l # ls) =
     (if skippable l \<or> \<not> shaped l then declarations_of ls
      else (case declaration_of l of
              Inl e \<Rightarrow> declarations_of ls
            | Inr d \<Rightarrow> d # declarations_of ls))"
  by (simp add: declarations_of_def List.map_filter_simps split: sum.splits)

lemma declarations_of_Nil: "declarations_of [] = []"
  by (simp add: declarations_of_def List.map_filter_simps)

lemma count_list_pos: "(0 < count_list xs x) = (x \<in> set xs)"
  by (induction xs) auto

lemma forEach_line_no_abort:
  assumes "\<forall>line\<in>set lines. \<not> aborts line"
  shows "\<exists>c. forEach_line n lines vs console =
               (Inr (foldl (\<lambda>vs d. store d vs) vs (declarations_of lines)), c) \<and>
             (\<forall>K. count_list c (DuplicateEnvironmentVariable K) =
                   count_list console (DuplicateEnvironmentVariable K) +
                   count_list (map var_key (declarations_of lines)) K -
                   (if K \<in> set (map var_key vs) \<or>
                       K \<notin> set (map var_key (declarations_of lines)) then 0 else 1))"
  using assms
proof (induction lines arbitrary: n vs console)
  case Nil
  show ?case by (simp add: declarations_of_Nil)
next
  case (Cons l ls)
  from Cons.prems have na: "\<not> aborts l" and rest: "\<forall>line\<in>set ls. \<not> aborts line" by auto
  let ?ds = "declarations_of ls"
  show ?case
  proof (cases "skippable l \<or> \<not> shaped l")
    case True
    have "\<exists>c1. parseEnvLine n l vs console = (Inr vs, c1) \<and>
               (\<forall>K. count_list c1 (DuplicateEnvironmentVariable K) =
                    count_list console (DuplicateEnvironmentVariable K))"
    proof (cases "skippable l")
      case True
      then show ?thesis by (simp add: parseEnvLine_eq)
    next
      case F: False
      with True have "parseEnvLine n l vs console =
                        (Inr vs, console @ [SkippingInvalidLine (n + 1) l])"
        by (simp add: parseEnvLine_eq)
      then show ?thesis by simp
    qed
    then obtain c1 where pl: "parseEnvLine n l vs console = (Inr vs, c1)"
      and c1: "\<forall>K. count_list c1 (DuplicateEnvironmentVariable K) =
                    count_list console (DuplicateEnvironmentVariable K)"
      by blast
    from Cons.IH [OF rest, of "n + 1" vs c1] pl c1 True show ?thesis
      by (simp add: declarations_of_Cons)
  next
    case False
    with na obtain d where d: "declaration_of l = Inr d"
      by (cases "declaration_of l") (auto simp: aborts_def)
    let ?c1 = "if list_ex (\<lambda>x. var_key x = var_key d) vs
               then console @ [DuplicateEnvironmentVariable (var_key d)] else console"
    from False d have pl: "parseEnvLine n l vs console = (Inr (store d vs), ?c1)"
      by (simp add: parseEnvLine_eq)
    from False d have dl: "declarations_of (l # ls) = d # ?ds"
      by (simp add: declarations_of_Cons)
    have ex: "list_ex (\<lambda>x. var_key x = var_key d) vs = (var_key d \<in> set (map var_key vs))"
      by (induction vs) auto
    from Cons.IH [OF rest, of "n + 1" "store d vs" ?c1] obtain c where
      fe: "forEach_line (n + 1) ls (store d vs) ?c1 =
             (Inr (foldl (\<lambda>vs d. store d vs) (store d vs) ?ds), c)"
      and cnt: "\<And>K. count_list c (DuplicateEnvironmentVariable K) =
                   count_list ?c1 (DuplicateEnvironmentVariable K) +
                   count_list (map var_key ?ds) K -
                   (if K \<in> set (map var_key (store d vs)) \<or> K \<notin> set (map var_key ?ds)
                    then 0 else 1)"
      by blast
    have "count_list c (DuplicateEnvironmentVariable K) =
            count_list console (DuplicateEnvironmentVariable K) +
            count_list (map var_key (d # ?ds)) K -
            (if K \<in> set (map var_key vs) \<or> K \<notin> set (map var_key (d # ?ds)) then 0 else 1)"
      for K
    proof (cases "K = var_key d")
      case True
      then show ?thesis using cnt [of K] by (auto simp: keys_store ex)
    next
      case F: False
      have p: "(0 < count_list (map var_key ?ds) K) = (K \<in> set (map var_key ?ds))"
        by (rule count_list_pos)
      from F show ?thesis using cnt [of K] by (auto simp: keys_store ex)
    qed
    with pl fe dl show ?thesis by simp
  qed
qed

lemma config_of_parse:
  assumes "parseEnvFile fs ''.env'' [] = (Inr envVars, c)"
  shows "config fs \<lparr> opt_path = None, opt_strict = strict \<rparr> [] =
           (Inr (foldl (\<lambda>acc x. assign_property acc (var_key x) (var_value x)) [] envVars), c)"
  using assms by (simp add: config_def)

text \<open>
  The file of the test \<^verbatim>\<open>should handle duplicate variable names\<close>.
\<close>

definition duplicate_file :: string where
  "duplicate_file = ''STRING NAME=First'' @ [CHR 0x0A] @ ''STRING NAME=Second''"

lemma split_duplicate_file:
  "split_on (CHR 0x0A) duplicate_file = [''STRING NAME=First'', ''STRING NAME=Second'']"
  by code_simp

lemma declarations_of_duplicate_file:
  "declarations_of [''STRING NAME=First'', ''STRING NAME=Second''] =
     [\<lparr> var_key = ''NAME'', var_type = ''STRING'', var_value = EString ''First'' \<rparr>,
      \<lparr> var_key = ''NAME'', var_type = ''STRING'', var_value = EString ''Second'' \<rparr>]"
  by code_simp

text \<open>
  Claim C2. When no line of the file aborts the parse, \<open>parseEnvFile\<close> returns a list
  with one entry for each declared key, the keys in the order in which they were first
  seen; the entry of a key \<open>K\<close> is the last declaration of \<open>K\<close> in the file, type and
  value; and the console holds, for each key \<open>K\<close>, one warning
  \<^verbatim>\<open>Duplicate environment variable\<close> per declaration of \<open>K\<close> after the first. \<open>config\<close>
  returns the object of these entries and the same console whether \<open>strict\<close> is set or
  not.
\<close>

theorem parseEnvFile_duplicate_keys:
  "(fs envPath = Some file \<and> (\<forall>line\<in>set (split_on (CHR 0x0A) file). \<not> aborts line) \<longrightarrow>
     (\<exists>envVars c.
        parseEnvFile fs envPath [] = (Inr envVars, c) \<and>
        distinct (map var_key envVars) \<and>
        map var_key envVars =
          first_seen (map var_key (declarations_of (split_on (CHR 0x0A) file))) \<and>
        (\<forall>K. List.find (\<lambda>x. var_key x = K) envVars =
              List.find (\<lambda>d. var_key d = K) (rev (declarations_of (split_on (CHR 0x0A) file)))) \<and>
        (\<forall>K. count_list c (DuplicateEnvironmentVariable K) =
              count_list (map var_key (declarations_of (split_on (CHR 0x0A) file))) K - 1))) \<and>
   (fs ''.env'' = Some file \<and> (\<forall>line\<in>set (split_on (CHR 0x0A) file). \<not> aborts line) \<longrightarrow>
     (\<exists>envVars c.
        parseEnvFile fs ''.env'' [] = (Inr envVars, c) \<and>
        (\<forall>strict. config fs \<lparr> opt_path = None, opt_strict = strict \<rparr> [] =
           (Inr (foldl (\<lambda>acc x. assign_property acc (var_key x) (var_value x)) [] envVars), c))))"
proof -
  let ?ds = "declarations_of (split_on (CHR 0x0A) file)"
  have main: "\<exists>envVars c.
        parseEnvFile fs p [] = (Inr envVars, c) \<and>
        distinct (map var_key envVars) \<and>
        map var_key envVars = first_seen (map var_key ?ds) \<and>
        (\<forall>K. List.find (\<lambda>x. var_key x = K) envVars = List.find (\<lambda>d. var_key d = K) (rev ?ds)) \<and>
        (\<forall>K. count_list c (DuplicateEnvironmentVariable K) = count_list (map var_key ?ds) K - 1)"
    if f: "fs p = Some file" and na: "\<forall>line\<in>set (split_on (CHR 0x0A) file). \<not> aborts line" for p
  proof -
    from forEach_line_no_abort [OF na, of 0 "[]" "[]"] obtain c where
      fe: "forEach_line 0 (split_on (CHR 0x0A) file) [] [] =
             (Inr (foldl (\<lambda>vs d. store d vs) [] ?ds), c)"
      and cnt: "\<And>K. count_list c (DuplicateEnvironmentVariable K) =
                  count_list (map var_key ?ds) K -
                  (if K \<notin> set (map var_key ?ds) then 0 else 1)"
      by auto
    let ?vs = "foldl (\<lambda>vs d. store d vs) [] ?ds"
    have k: "map var_key ?vs = first_seen (map var_key ?ds)"
      using keys_foldl_store [of "[]" ?ds] by simp
    have dk: "distinct (map var_key ?vs)" unfolding k by (rule distinct_first_seen)
    have fi: "List.find (\<lambda>x. var_key x = K) ?vs = List.find (\<lambda>d. var_key d = K) (rev ?ds)" for K
      by (simp add: find_foldl_store split: option.splits)
    have cn: "count_list c (DuplicateEnvironmentVariable K) = count_list (map var_key ?ds) K - 1" for K
    proof (cases "K \<in> set (map var_key ?ds)")
      case True
      with cnt [of K] show ?thesis by simp
    next
      case False
      then have "count_list (map var_key ?ds) K = 0" using count_list_pos [of "map var_key ?ds" K] by simp
      with cnt [of K] False show ?thesis by simp
    qed
    from f fe have "parseEnvFile fs p [] = (Inr ?vs, c)" by (simp add: parseEnvFile_def)
    with k dk fi cn show ?thesis by blast
  qed
  have A: "fs envPath = Some file \<and> (\<forall>line\<in>set (split_on (CHR 0x0A) file). \<not> aborts line) \<longrightarrow>
     (\<exists>envVars c.
        parseEnvFile fs envPath [] = (Inr envVars, c) \<and>
        distinct (map var_key envVars) \<and>
        map var_key envVars = first_seen (map var_key ?ds) \<and>
        (\<forall>K. List.find (\<lambda>x. var_key x = K) envVars = List.find (\<lambda>d. var_key d = K) (rev ?ds)) \<and>
        (\<forall>K. count_list c (DuplicateEnvironmentVariable K) = count_list (map var_key ?ds) K - 1))"
    using main [of envPath] by blast
  have B: "fs ''.env'' = Some file \<and> (\<forall>line\<in>set (split_on (CHR 0x0A) file). \<not> aborts line) \<longrightarrow>
     (\<exists>envVars c.
        parseEnvFile fs ''.env'' [] = (Inr envVars, c) \<and>
        (\<forall>strict. config fs \<lparr> opt_path = None, opt_strict = strict \<rparr> [] =
           (Inr (foldl (\<lambda>acc x. assign_property acc (var_key x) (var_value x)) [] envVars), c)))"
  proof (intro impI, elim conjE)
    assume f: "fs ''.env'' = Some file" and na: "\<forall>line\<in>set (split_on (CHR 0x0A) file). \<not> aborts line"
    from main [OF f na] obtain envVars c where "parseEnvFile fs ''.env'' [] = (Inr envVars, c)"
      by blast
    with config_of_parse [OF this] show "\<exists>envVars c.
        parseEnvFile fs ''.env'' [] = (Inr envVars, c) \<and>
        (\<forall>strict. config fs \<lparr> opt_path = None, opt_strict = strict \<rparr> [] =
           (Inr (foldl (\<lambda>acc x. assign_property acc (var_key x) (var_value x)) [] envVars), c))"
      by blast
  qed
  from A B show ?thesis by blast
qed

theorem parseEnvFile_duplicate_keys_witness:
  "[''.env'' \<mapsto> duplicate_file] ''.env'' = Some duplicate_file \<and>
   \<not> aborts ''STRING NAME=First'' \<and> \<not> aborts ''STRING NAME=Second'' \<and>
   (\<exists>envVars c.
      parseEnvFile [''.env'' \<mapsto> duplicate_file] ''.env'' [] = (Inr envVars, c) \<and>
      map var_key envVars = [''NAME''] \<and>
      List.find (\<lambda>x. var_key x = ''NAME'') envVars =
        Some \<lparr> var_key = ''NAME'', var_type = ''STRING'', var_value = EString ''Second'' \<rparr> \<and>
      count_list c (DuplicateEnvironmentVariable ''NAME'') = 1 \<and>
      (\<forall>strict. config [''.env'' \<mapsto> duplicate_file] \<lparr> opt_path = None, opt_strict = strict \<rparr> [] =
         (Inr (foldl (\<lambda>acc x. assign_property acc (var_key x) (var_value x)) [] envVars), c)))"
proof -
  let ?fs = "[''.env'' \<mapsto> duplicate_file]"
  have f: "?fs ''.env'' = Some duplicate_file" by simp
  have n1: "\<not> aborts ''STRING NAME=First''" by code_simp
  have n2: "\<not> aborts ''STRING NAME=Second''" by code_simp
  have na: "\<forall>line\<in>set (split_on (CHR 0x0A) duplicate_file). \<not> aborts line"
    using n1 n2 by (simp add: split_duplicate_file)
  note T = parseEnvFile_duplicate_keys [where fs = ?fs and envPath = "''.env''"
      and ?file = duplicate_file]
  from T f na obtain envVars c where
    p: "parseEnvFile ?fs ''.env'' [] = (Inr envVars, c)" and
    k: "map var_key envVars =
          first_seen (map var_key (declarations_of (split_on (CHR 0x0A) duplicate_file)))" and
    l: "\<And>K. List.find (\<lambda>x. var_key x = K) envVars =
          List.find (\<lambda>d. var_key d = K) (rev (declarations_of (split_on (CHR 0x0A) duplicate_file)))" and
    w: "\<And>K. count_list c (DuplicateEnvironmentVariable K) =
          count_list (map var_key (declarations_of (split_on (CHR 0x0A) duplicate_file))) K - 1"
    by blast
  from T f na obtain envVars' c' where
    p': "parseEnvFile ?fs ''.env'' [] = (Inr envVars', c')" and
    g: "\<And>strict. config ?fs \<lparr> opt_path = None, opt_strict = strict \<rparr> [] =
         (Inr (foldl (\<lambda>acc x. assign_property acc (var_key x) (var_value x)) [] envVars'), c')"
    by blast
  from p p' have same: "envVars' = envVars" "c' = c" by simp_all
  have k': "map var_key envVars = [''NAME'']"
    unfolding k split_duplicate_file declarations_of_duplicate_file by simp
  have l': "List.find (\<lambda>x. var_key x = ''NAME'') envVars =
        Some \<lparr> var_key = ''NAME'', var_type = ''STRING'', var_value = EString ''Second'' \<rparr>"
    unfolding l split_duplicate_file declarations_of_duplicate_file by simp
  have w': "count_list c (DuplicateEnvironmentVariable ''NAME'') = 1"
    unfolding w split_duplicate_file declarations_of_duplicate_file by simp
  have g': "\<forall>strict. config ?fs \<lparr> opt_path = None, opt_strict = strict \<rparr> [] =
         (Inr (foldl (\<lambda>acc x. assign_property acc (var_key x) (var_value x)) [] envVars), c)"
    using g unfolding same by blast
  from p k' l' w' g' have "\<exists>envVars c.
      parseEnvFile ?fs ''.env'' [] = (Inr envVars, c) \<and>
      map var_key envVars = [''NAME''] \<and>
      List.find (\<lambda>x. var_key x = ''NAME'') envVars =
        Some \<lparr> var_key = ''NAME'', var_type = ''STRING'', var_value = EString ''Second'' \<rparr> \<and>
      count_list c (DuplicateEnvironmentVariable ''NAME'') = 1 \<and>
      (\<forall>strict. config ?fs \<lparr> opt_path = None, opt_strict = strict \<rparr> [] =
         (Inr (foldl (\<lambda>acc x. assign_property acc (var_key x) (var_value x)) [] envVars), c))"
    by (intro exI [where x = envVars] exI [where x = c] conjI)
  with f n1 n2 show ?thesis by (intro conjI)
qed

end
